theory Spec2Isabelle
  imports Main "HOL-Library.Sublist"
begin

section \<open>JavaScript string primitives used by the sources\<close>

text \<open>
  A JavaScript string is a sequence of UTF-16 code units. The model uses \<open>string\<close>
  (a list of 8-bit \<open>char\<close>), so it covers the strings whose code units are below 256;
  \<open>length\<close> is then \<open>.length\<close> and \<open>take n\<close> is \<open>.slice(0, n)\<close> for \<open>n \<ge> 0\<close>.
\<close>

definition code :: "char \<Rightarrow> nat" where
  "code c = of_char c"

text \<open>The regular-expression class \<open>\s\<close> and the set stripped by \<open>trim()\<close>:
  TAB, LF, VT, FF, CR, SPACE and NBSP are its members below 256.\<close>

definition isWhiteSpace :: "char \<Rightarrow> bool" where
  "isWhiteSpace c = ((9 \<le> code c \<and> code c \<le> 13) \<or> code c = 32 \<or> code c = 160)"

text \<open>The class \<open>\w\<close>: \<open>[A-Za-z0-9_]\<close>.\<close>

definition isUpper :: "char \<Rightarrow> bool" where
  "isUpper c = (65 \<le> code c \<and> code c \<le> 90)"

definition isLower :: "char \<Rightarrow> bool" where
  "isLower c = (97 \<le> code c \<and> code c \<le> 122)"

definition isDigit :: "char \<Rightarrow> bool" where
  "isDigit c = (48 \<le> code c \<and> code c \<le> 57)"

definition isWord :: "char \<Rightarrow> bool" where
  "isWord c = (isUpper c \<or> isLower c \<or> isDigit c \<or> c = CHR ''_'')"

text \<open>\<open>toLowerCase()\<close> on one code unit below 256: \<open>A-Z\<close> and the Latin-1 capitals
  \<open>U+00C0..U+00DE\<close> (without the multiplication sign \<open>U+00D7\<close>) move up by 32.\<close>

definition lowerChar :: "char \<Rightarrow> char" where
  "lowerChar c =
     (if isUpper c \<or> (192 \<le> code c \<and> code c \<le> 222 \<and> code c \<noteq> 215)
      then char_of (code c + 32) else c)"

definition toLowerCase :: "string \<Rightarrow> string" where
  "toLowerCase s = map lowerChar s"

text \<open>\<open>s.trim()\<close>.\<close>

definition trim :: "string \<Rightarrow> string" where
  "trim s = rev (dropWhile isWhiteSpace (rev (dropWhile isWhiteSpace s)))"

text \<open>\<open>s.replace(/X+/g, r)\<close> for a character class \<open>X\<close>: every maximal run of
  characters of the class is replaced by \<open>r\<close>.\<close>

function replaceRuns :: "(char \<Rightarrow> bool) \<Rightarrow> string \<Rightarrow> string \<Rightarrow> string" where
  "replaceRuns p r [] = []"
| "replaceRuns p r (c # cs) =
     (if p c then r @ replaceRuns p r (dropWhile p cs) else c # replaceRuns p r cs)"
  by pat_completeness auto
termination
  by (relation "measure (\<lambda>(p, r, s). length s)")
     (auto simp: le_imp_less_Suc length_dropWhile_le)

text \<open>\<open>s.replace(/\n\s*\n/g, "\n\n")\<close>: at a line feed, the greedy \<open>\s*\<close> takes the
  whole run of white space that follows and backtracks to the last line feed of that run;
  without a line feed in the run there is no match at this position.\<close>

definition LF :: char where
  "LF = CHR 0x0A"

function replaceBlankLines :: "string \<Rightarrow> string" where
  "replaceBlankLines [] = []"
| "replaceBlankLines (c # cs) =
     (if c = LF \<and> LF \<in> set (takeWhile isWhiteSpace cs)
      then [LF, LF] @
           replaceBlankLines
             (drop (length (dropWhile (\<lambda>x. x \<noteq> LF) (rev (takeWhile isWhiteSpace cs)))) cs)
      else c # replaceBlankLines cs)"
  by pat_completeness auto
termination
  by (relation "measure length") auto

text \<open>\<open>s.split(/\s+/).length\<close>: the pieces are separated by the maximal runs of white
  space, so there is one piece more than there are runs (the empty string gives one piece).\<close>

function splitWs :: "string \<Rightarrow> string list" where
  "splitWs s =
     (case dropWhile (\<lambda>c. \<not> isWhiteSpace c) s of
        [] \<Rightarrow> [s]
      | _ # rest \<Rightarrow> takeWhile (\<lambda>c. \<not> isWhiteSpace c) s # splitWs (dropWhile isWhiteSpace rest))"
  by pat_completeness auto
termination
proof (relation "measure length")
  show "wf (measure length)" by simp
next
  fix s :: string and x rest
  assume "dropWhile (\<lambda>c. \<not> isWhiteSpace c) s = x # rest"
  then have "length rest < length s"
    by (metis length_dropWhile_le length_Cons less_Suc_eq_le not_less)
  moreover have "length (dropWhile isWhiteSpace rest) \<le> length rest"
    by (rule length_dropWhile_le)
  ultimately show "(dropWhile isWhiteSpace rest, s) \<in> measure length" by simp
qed

declare splitWs.simps [simp del]

text \<open>\<open>s.includes(t)\<close>.\<close>

fun includesStr :: "string \<Rightarrow> string \<Rightarrow> bool" where
  "includesStr [] t = (t = [])"
| "includesStr (c # cs) t = (take (length t) (c # cs) = t \<or> includesStr cs t)"

section \<open>storage.ts: slugify\<close>

text \<open>
  \<^verbatim>\<open>text.toLowerCase().replace(/[^\w\s-]/g, "").replace(/\s+/g, "-").replace(/-+/g, "-").trim()\<close>
\<close>

definition slugify :: "string \<Rightarrow> string" where
  "slugify text =
     trim (replaceRuns (\<lambda>c. c = CHR ''-'') ''-''
       (replaceRuns isWhiteSpace ''-''
         (filter (\<lambda>c. isWord c \<or> isWhiteSpace c \<or> c = CHR ''-'') (toLowerCase text))))"





section \<open>fetcher.ts: fetchPage\<close>

definition MAX_RETRIES :: nat where
  "MAX_RETRIES = 3"

definition RETRY_DELAY :: nat where
  "RETRY_DELAY = 1000"

text \<open>
  What one call of \<open>axios.get\<close> (with \<open>validateStatus: status < 400\<close>) can do: resolve
  with the body, or reject. A rejection is an \<open>AxiosError\<close> that carries the response's
  status, an \<open>AxiosError\<close> without a response (time-out, network error), or any other
  error; each carries its message.
\<close>

datatype failure =
    AxiosStatus nat string
  | AxiosNoResponse string
  | OtherError string

datatype outcome = Resolved string | Rejected failure

fun message :: "failure \<Rightarrow> string" where
  "message (AxiosStatus st m) = m"
| "message (AxiosNoResponse m) = m"
| "message (OtherError m) = m"

text \<open>The test of lines 41-48: an \<open>AxiosError\<close> whose response status is truthy, at least
  400, below 500 and not 429.\<close>

fun clientError :: "failure \<Rightarrow> bool" where
  "clientError (AxiosStatus st m) = (st \<noteq> 0 \<and> 400 \<le> st \<and> st < 500 \<and> st \<noteq> 429)"
| "clientError _ = False"

fun responseStatus :: "failure \<Rightarrow> nat" where
  "responseStatus (AxiosStatus st m) = st"
| "responseStatus _ = 0"

text \<open>A number in a template literal: its decimal digits.\<close>

fun showNat :: "nat \<Rightarrow> string" where
  "showNat n =
     (if n < 10 then [char_of (48 + n)] else showNat (n div 10) @ [char_of (48 + n mod 10)])"

declare showNat.simps [simp del]

text \<open>
  The result of a run of \<open>fetchPage\<close>: the value returned (\<open>Inr\<close>) or the message of the
  error thrown (\<open>Inl\<close>), the number of calls of \<open>axios.get\<close> made, and the delays slept, in
  milliseconds and in order.
\<close>

record fetch_run =
  result :: "string + string"
  attempts :: nat
  sleeps :: "nat list"

text \<open>
  The \<open>for\<close> loop of lines 23-57. \<open>net k\<close> is what the \<open>k\<close>-th call of \<open>axios.get\<close>
  does; \<open>lastError\<close> is \<open>null\<close> (\<open>None\<close>) before the first failure.
\<close>

function fetchLoop ::
  "(nat \<Rightarrow> outcome) \<Rightarrow> string \<Rightarrow> nat \<Rightarrow> failure option \<Rightarrow> nat list \<Rightarrow> fetch_run" where
  "fetchLoop net url attempt lastError slept =
     (if attempt \<le> MAX_RETRIES then
        (case net attempt of
           Resolved html \<Rightarrow> \<lparr>result = Inr html, attempts = attempt, sleeps = slept\<rparr>
         | Rejected err \<Rightarrow>
             if clientError err
             then \<lparr>result = Inl (''Failed to fetch '' @ url @ '': '' @ showNat (responseStatus err)),
                   attempts = attempt, sleeps = slept\<rparr>
             else fetchLoop net url (attempt + 1) (Some err)
                    (if attempt < MAX_RETRIES then slept @ [RETRY_DELAY * attempt] else slept))
      else \<lparr>result = Inl (''Failed to fetch '' @ url @ '' after '' @ showNat MAX_RETRIES @
                           '' attempts: '' @
                           (case lastError of None \<Rightarrow> ''undefined'' | Some e \<Rightarrow> message e)),
             attempts = attempt - 1, sleeps = slept\<rparr>)"
  by pat_completeness auto
termination
  by (relation "measure (\<lambda>(net, url, attempt, lastError, slept). MAX_RETRIES + 1 - attempt)") auto

declare fetchLoop.simps [simp del]

definition fetchPage :: "(nat \<Rightarrow> outcome) \<Rightarrow> string \<Rightarrow> fetch_run" where
  "fetchPage net url = fetchLoop net url 1 None []"

text \<open>A failure after which the loop goes on.\<close>

fun retried :: "outcome \<Rightarrow> bool" where
  "retried (Resolved html) = False"
| "retried (Rejected err) = (\<not> clientError err)"

fun rejectedWith :: "outcome \<Rightarrow> failure" where
  "rejectedWith (Rejected err) = err"
| "rejectedWith (Resolved html) = OtherError []"

text \<open>Networks for the examples: the server answers 503 every time; it answers 404.\<close>

definition always503 :: "nat \<Rightarrow> outcome" where
  "always503 k = Rejected (AxiosStatus 503 ''Request failed with status code 503'')"

definition always404 :: "nat \<Rightarrow> outcome" where
  "always404 k = Rejected (AxiosStatus 404 ''Request failed with status code 404'')"

section \<open>types.ts and generate.ts: generateArticles\<close>

datatype brief_status = planned | approved | generated

datatype platform_kind = medium | linkedin | both

datatype pattern_kind = dots | grid | waves | circuit

record ArticleBrief =
  id_b :: string
  slug_b :: string
  title_b :: string
  subtitle_b :: string
  topic :: string
  angle :: string
  category_b :: string
  targetAudience :: string
  keywords_b :: "string list"
  outline :: "string list"
  targetLength :: nat
  platform :: platform_kind
  status :: brief_status
  gradient_b :: string
  pattern_b :: pattern_kind
  readTime_b :: string

record GeneratedArticle =
  briefId :: string
  slug_g :: string
  title_g :: string
  subtitle_g :: string
  category_g :: string
  content_g :: string
  excerpt_g :: string
  metaDescription :: string
  tags :: "string list"
  mediumContent :: "string option"
  linkedinContent :: "string option"
  generatedAt :: string
  gradient_g :: string
  pattern_g :: pattern_kind
  readTime_g :: string

text \<open>
  \<open>config.articleCount\<close> is the result of \<open>parseInt\<close>: an integer or \<open>NaN\<close>.
  \<open>xs.slice(0, end)\<close> turns \<open>end\<close> into an integer (\<open>NaN\<close> gives 0); a negative one
  counts from the end of the array.
\<close>

datatype jsnumber = NaN | Num int

fun toIntegerOrInfinity :: "jsnumber \<Rightarrow> int" where
  "toIntegerOrInfinity NaN = 0"
| "toIntegerOrInfinity (Num i) = i"

definition slice0 :: "'a list \<Rightarrow> jsnumber \<Rightarrow> 'a list" where
  "slice0 xs end =
     (let len = int (length xs);
          rel = toIntegerOrInfinity end;
          final = (if rel < 0 then max (len + rel) 0 else min rel len)
      in take (nat final) xs)"

text \<open>
  The files of one site directory: \<open>site-analysis.json\<close> (its contents are not looked
  at here), the \<open>articles\<close> array of \<open>article-plan.json\<close>, and the other files written,
  each recorded as the article directory (the slug; empty for the output directory itself)
  and the file name. \<open>readJson\<close> gives \<open>null\<close> for a file that is missing.
\<close>

record disk =
  siteAnalysis :: "string option"
  articlePlan :: "ArticleBrief list option"
  written :: "(string \<times> string) list"

text \<open>
  \<open>generateSingleArticle\<close> asks the language model and either throws or returns the
  article. \<open>gen k brief\<close> is what its \<open>k\<close>-th call in a run does (\<open>k\<close> from 0).
\<close>

type_synonym generator = "nat \<Rightarrow> ArticleBrief \<Rightarrow> string + GeneratedArticle"

text \<open>
  \<open>plan.articles.filter((a) => a.status !== "generated").slice(0, config.articleCount)\<close>.
  The array holds references to the brief objects of \<open>plan.articles\<close>; the model holds
  their positions in \<open>plan.articles\<close>.
\<close>

definition articlesToGenerate :: "jsnumber \<Rightarrow> ArticleBrief list \<Rightarrow> nat list" where
  "articlesToGenerate articleCount articles =
     slice0 (filter (\<lambda>i. status (articles ! i) \<noteq> generated) [0..<length articles]) articleCount"

text \<open>The state of the loop of lines 100-127: \<open>plan.articles\<close> in memory, the files
  written, the briefs passed to \<open>generateSingleArticle\<close> so far, and
  \<open>generatedArticles\<close>.\<close>

record loop_state =
  planArticles :: "ArticleBrief list"
  filesWritten :: "(string \<times> string) list"
  calls :: "ArticleBrief list"
  generatedArticles :: "GeneratedArticle list"

definition articleFiles :: "ArticleBrief \<Rightarrow> GeneratedArticle \<Rightarrow> (string \<times> string) list" where
  "articleFiles brief article =
     [(slugify (title_b brief), ''article.md'')] @
     (case mediumContent article of
        None \<Rightarrow> [] | Some m \<Rightarrow> if m = [] then [] else [(slugify (title_b brief), ''medium.md'')]) @
     (case linkedinContent article of
        None \<Rightarrow> [] | Some l \<Rightarrow> if l = [] then [] else [(slugify (title_b brief), ''linkedin.md'')]) @
     [(slugify (title_b brief), ''metadata.json'')]"

text \<open>The loop. It returns the state reached and the error thrown, if any.\<close>

fun generateLoop :: "generator \<Rightarrow> nat list \<Rightarrow> loop_state \<Rightarrow> loop_state \<times> string option" where
  "generateLoop gen [] st = (st, None)"
| "generateLoop gen (i # rest) st =
     (let brief = planArticles st ! i;
          st1 = st\<lparr>calls := calls st @ [brief]\<rparr>
      in case gen (length (calls st)) brief of
           Inl err \<Rightarrow> (st1, Some err)
         | Inr article \<Rightarrow>
             generateLoop gen rest
               (st1\<lparr>generatedArticles := generatedArticles st1 @ [article],
                     filesWritten := filesWritten st1 @ articleFiles brief article,
                     planArticles := (planArticles st1)[i := brief\<lparr>status := generated\<rparr>]\<rparr>))"

text \<open>
  One run of \<open>generateArticles\<close>: the disk afterwards, the briefs for which
  \<open>generateSingleArticle\<close> was called, and the error thrown or the articles returned.
  The plan is written once, after the loop (line 130); an error thrown in the loop leaves
  the function before that line.
\<close>

definition generateArticles ::
  "generator \<Rightarrow> jsnumber \<Rightarrow> disk \<Rightarrow> disk \<times> ArticleBrief list \<times> (string + GeneratedArticle list)" where
  "generateArticles gen articleCount d =
     (case siteAnalysis d of
        None \<Rightarrow> (d, [], Inl ''Site analysis not found. Run `blog-builder analyze` first.'')
      | Some analysis \<Rightarrow>
         (case articlePlan d of
            None \<Rightarrow> (d, [], Inl ''Article plan not found. Run `blog-builder plan` first.'')
          | Some articles \<Rightarrow>
             (case generateLoop gen (articlesToGenerate articleCount articles)
                     \<lparr>planArticles = articles, filesWritten = written d,
                      calls = [], generatedArticles = []\<rparr> of
                (st, Some err) \<Rightarrow> (d\<lparr>written := filesWritten st\<rparr>, calls st, Inl err)
              | (st, None) \<Rightarrow>
                  (d\<lparr>articlePlan := Some (planArticles st),
                     written := filesWritten st @ [([], ''blog.ts''), ([], ''README.md'')]\<rparr>,
                   calls st, Inr (generatedArticles st)))))"

definition diskAfter :: "disk \<times> ArticleBrief list \<times> (string + GeneratedArticle list) \<Rightarrow> disk" where
  "diskAfter r = fst r"

definition invoked :: "disk \<times> ArticleBrief list \<times> (string + GeneratedArticle list) \<Rightarrow> ArticleBrief list" where
  "invoked r = fst (snd r)"

definition outcomeOf ::
  "disk \<times> ArticleBrief list \<times> (string + GeneratedArticle list) \<Rightarrow> string + GeneratedArticle list" where
  "outcomeOf r = snd (snd r)"

text \<open>Data for the examples: a plan of three planned briefs, a generator that always
  succeeds, and one whose third call throws.\<close>

definition exampleBrief :: "string \<Rightarrow> ArticleBrief" where
  "exampleBrief n =
     \<lparr>id_b = ''article-'' @ n, slug_b = ''post-'' @ n, title_b = ''Post '' @ n, subtitle_b = [],
      topic = [], angle = [], category_b = [], targetAudience = [], keywords_b = [],
      outline = [], targetLength = 1500, platform = both, status = planned,
      gradient_b = ''blue'', pattern_b = dots, readTime_b = ''5 min''\<rparr>"

definition exampleArticle :: "ArticleBrief \<Rightarrow> GeneratedArticle" where
  "exampleArticle b =
     \<lparr>briefId = id_b b, slug_g = slug_b b, title_g = title_b b, subtitle_g = subtitle_b b,
      category_g = category_b b, content_g = ''# '' @ title_b b, excerpt_g = ''...'',
      metaDescription = ''...'', tags = keywords_b b, mediumContent = Some ''m'',
      linkedinContent = Some ''l'', generatedAt = ''2025-01-01T00:00:00.000Z'',
      gradient_g = gradient_b b, pattern_g = pattern_b b, readTime_g = readTime_b b\<rparr>"


definition genOk :: generator where
  "genOk k b = Inr (exampleArticle b)"

definition genCrashAtThird :: generator where
  "genCrashAtThird k b = (if k = 2 then Inl ''overloaded'' else Inr (exampleArticle b))"

definition examplePlan :: "ArticleBrief list" where
  "examplePlan = [exampleBrief ''1'', exampleBrief ''2'', exampleBrief ''3'']"

definition exampleDisk :: disk where
  "exampleDisk = \<lparr>siteAnalysis = Some ''{}'', articlePlan = Some examplePlan, written = []\<rparr>"

definition alreadyGenerated :: "ArticleBrief \<Rightarrow> bool" where
  "alreadyGenerated b = (status b = generated)"

text \<open>The plan in which the briefs at the positions \<open>S\<close> have been given the status
  \<open>generated\<close> and nothing else has changed.\<close>

definition markGenerated :: "nat set \<Rightarrow> ArticleBrief list \<Rightarrow> ArticleBrief list" where
  "markGenerated S articles =
     map (\<lambda>j. if j \<in> S then (articles ! j)\<lparr>status := generated\<rparr> else articles ! j)
       [0..<length articles]"

section \<open>The document model behind cheerio\<close>

text \<open>
  \<open>cheerio.load(html)\<close> parses the text into a tree; the functions below start from that
  tree. A document is the list of the children of its root. The parser gives tag and
  attribute names in lower case and keeps the first of several attributes of one name.
\<close>

datatype node =
    Element string "(string \<times> string) list" "node list"
  | Text string
  | Comment string

type_synonym document = "node list"

text \<open>The parts of the selectors that the sources use: a tag name, \<open>.class\<close>, \<open>#id\<close>,
  \<open>[name]\<close>, \<open>[name="value"]\<close> and \<open>[name*="value"]\<close>. A compound selector such as
  \<open>a[href]\<close> is a list of them, a selector such as \<open>article a\<close> a chain of compounds
  joined by the descendant combinator, and \<open>a, b\<close> a list of selectors.\<close>

datatype simple =
    Tag string
  | Class string
  | Ident string
  | AttrExists string
  | AttrEquals string string
  | AttrContains string string

type_synonym compound = "simple list"

type_synonym selector = "compound list"

definition attr :: "string \<Rightarrow> (string \<times> string) list \<Rightarrow> string option" where
  "attr name attrs = map_of attrs name"

fun matchesSimple :: "simple \<Rightarrow> string \<Rightarrow> (string \<times> string) list \<Rightarrow> bool" where
  "matchesSimple (Tag t) tag attrs = (tag = t)"
| "matchesSimple (Class c) tag attrs =
     (case attr ''class'' attrs of None \<Rightarrow> False | Some v \<Rightarrow> c \<noteq> [] \<and> c \<in> set (splitWs v))"
| "matchesSimple (Ident i) tag attrs = (attr ''id'' attrs = Some i)"
| "matchesSimple (AttrExists n) tag attrs = (attr n attrs \<noteq> None)"
| "matchesSimple (AttrEquals n v) tag attrs = (attr n attrs = Some v)"
| "matchesSimple (AttrContains n v) tag attrs =
     (case attr n attrs of None \<Rightarrow> False | Some x \<Rightarrow> v \<noteq> [] \<and> includesStr x v)"

fun matchesCompound :: "compound \<Rightarrow> node \<Rightarrow> bool" where
  "matchesCompound c (Element tag attrs children) = list_all (\<lambda>s. matchesSimple s tag attrs) c"
| "matchesCompound c (Text t) = False"
| "matchesCompound c (Comment t) = False"

text \<open>The outer compounds of a chain, innermost first, against the ancestors of an
  element, nearest first.\<close>

fun ancestorsMatch :: "compound list \<Rightarrow> node list \<Rightarrow> bool" where
  "ancestorsMatch [] ancestors = True"
| "ancestorsMatch (c # cs) [] = False"
| "ancestorsMatch (c # cs) (a # ancestors) =
     (if matchesCompound c a then ancestorsMatch cs ancestors
      else ancestorsMatch (c # cs) ancestors)"

definition matchesSelector :: "selector \<Rightarrow> node list \<Rightarrow> node \<Rightarrow> bool" where
  "matchesSelector sel ancestors n =
     (case rev sel of
        [] \<Rightarrow> False
      | c # outer \<Rightarrow> matchesCompound c n \<and> ancestorsMatch outer ancestors)"

definition matchesGroup :: "selector list \<Rightarrow> node list \<Rightarrow> node \<Rightarrow> bool" where
  "matchesGroup sels ancestors n = list_ex (\<lambda>sel. matchesSelector sel ancestors n) sels"

text \<open>\<open>$(sels)\<close>: the elements that match, in document order.\<close>

fun select :: "selector list \<Rightarrow> node list \<Rightarrow> node \<Rightarrow> node list"
  and selectAll :: "selector list \<Rightarrow> node list \<Rightarrow> node list \<Rightarrow> node list" where
  "select sels ancestors (Element tag attrs children) =
     (if matchesGroup sels ancestors (Element tag attrs children)
      then [Element tag attrs children] else []) @
     selectAll sels (Element tag attrs children # ancestors) children"
| "select sels ancestors (Text t) = []"
| "select sels ancestors (Comment t) = []"
| "selectAll sels ancestors [] = []"
| "selectAll sels ancestors (n # ns) = select sels ancestors n @ selectAll sels ancestors ns"

text \<open>\<open>$(sels).remove()\<close>: the tree without the elements that match.\<close>

fun removeIn :: "selector list \<Rightarrow> node list \<Rightarrow> node \<Rightarrow> node"
  and removeMatched :: "selector list \<Rightarrow> node list \<Rightarrow> node list \<Rightarrow> node list" where
  "removeIn sels ancestors (Element tag attrs children) =
     Element tag attrs (removeMatched sels (Element tag attrs children # ancestors) children)"
| "removeIn sels ancestors (Text t) = Text t"
| "removeIn sels ancestors (Comment t) = Comment t"
| "removeMatched sels ancestors [] = []"
| "removeMatched sels ancestors (n # ns) =
     (if matchesGroup sels ancestors n then removeMatched sels ancestors ns
      else removeIn sels ancestors n # removeMatched sels ancestors ns)"

text \<open>\<open>.text()\<close>: the text nodes below the elements of the selection, in document order.\<close>

fun textOf :: "node \<Rightarrow> string"
  and textOfAll :: "node list \<Rightarrow> string" where
  "textOf (Element tag attrs children) = textOfAll children"
| "textOf (Text t) = t"
| "textOf (Comment t) = []"
| "textOfAll [] = []"
| "textOfAll (n # ns) = textOf n @ textOfAll ns"

text \<open>\<open>.attr(name)\<close> of a selection: the attribute of its first element.\<close>

fun attrOfFirst :: "string \<Rightarrow> node list \<Rightarrow> string option" where
  "attrOfFirst name (Element tag attrs children # ns) = attr name attrs"
| "attrOfFirst name ns = None"


text \<open>A group of selectors none of which has a combinator.\<close>

definition flat :: "selector list \<Rightarrow> bool" where
  "flat sels = list_all (\<lambda>sel. length sel = 1) sels"

section \<open>fetcher.ts: extractMainContent\<close>

text \<open>The selector of line 69.\<close>

definition boilerplate :: "selector list" where
  "boilerplate =
     [[[Tag ''script'']], [[Tag ''style'']], [[Tag ''nav'']], [[Tag ''header'']],
      [[Tag ''footer'']], [[Tag ''aside'']], [[Class ''sidebar'']], [[Class ''navigation'']],
      [[Class ''menu'']], [[Class ''footer'']], [[Class ''header'']], [[Class ''ads'']],
      [[Class ''advertisement'']], [[Class ''cookie-banner'']], [[Class ''popup'']]]"

definition mainSelectors :: "selector list" where
  "mainSelectors =
     [[[Tag ''main'']], [[Tag ''article'']], [[AttrEquals ''role'' ''main'']],
      [[Class ''content'']], [[Class ''main-content'']], [[Ident ''content'']],
      [[Ident ''main'']], [[Class ''post-content'']], [[Class ''entry-content'']],
      [[Class ''article-content'']]]"

text \<open>The loop of lines 88-94: the text of the first element of the first selector that
  selects anything; the empty string when none does.\<close>

fun firstMatchText :: "selector list \<Rightarrow> document \<Rightarrow> string" where
  "firstMatchText [] doc = []"
| "firstMatchText (sel # sels) doc =
     (case selectAll [sel] [] doc of
        [] \<Rightarrow> firstMatchText sels doc
      | element # others \<Rightarrow> textOf element)"

text \<open>Lines 102-105.\<close>

definition cleanWhitespace :: "string \<Rightarrow> string" where
  "cleanWhitespace content =
     trim (replaceBlankLines (replaceRuns isWhiteSpace '' '' content))"

definition bodyText :: "document \<Rightarrow> string" where
  "bodyText doc = textOfAll (selectAll [[[Tag ''body'']]] [] doc)"

definition extractMainContent :: "document \<Rightarrow> string" where
  "extractMainContent doc =
     (let pruned = removeMatched boilerplate [] doc;
          content = firstMatchText mainSelectors pruned;
          content = (if content = [] then bodyText pruned else content)
      in cleanWhitespace content)"

text \<open>Documents for the examples: a page with navigation, an article and a footer; a page
  whose \<open>main\<close> element is empty; an article with blank lines in its text.\<close>

definition pageOf :: "node list \<Rightarrow> document" where
  "pageOf body = [Element ''html'' [] [Element ''head'' [] [], Element ''body'' [] body]]"



definition blankLinesPage :: document where
  "blankLinesPage = pageOf [Element ''article'' [] [Text [CHR ''a'', LF, LF, LF, CHR ''b'']]]"

section \<open>URLs and link extraction\<close>

text \<open>
  The platform's \<open>URL\<close> class. A URL object is given by its \<open>href\<close>, of which
  \<open>hostname\<close> and \<open>pathname\<close> are functions. \<open>parse s\<close> is \<open>new URL(s).href\<close> and
  \<open>resolve h b\<close> is \<open>new URL(h, b).href\<close> for the URL object \<open>b\<close>; \<open>None\<close> where the
  constructor throws.
\<close>

record url_api =
  parse :: "string \<Rightarrow> string option"
  resolve :: "string \<Rightarrow> string \<Rightarrow> string option"
  hostname :: "string \<Rightarrow> string"
  pathname :: "string \<Rightarrow> string"

datatype js_error = InvalidURL string | FetchFailed string

text \<open>\<open>[...new Set(xs)]\<close>: the elements of \<open>xs\<close> in the order of their first
  occurrences.\<close>

function newSet :: "'a list \<Rightarrow> 'a list" where
  "newSet [] = []"
| "newSet (x # xs) = x # newSet (filter (\<lambda>y. y \<noteq> x) xs)"
  by pat_completeness auto
termination
  by (relation "measure length") (auto simp: le_imp_less_Suc)

fun attrOf :: "string \<Rightarrow> node \<Rightarrow> string option" where
  "attrOf name (Element tag attrs children) = attr name attrs"
| "attrOf name (Text t) = None"
| "attrOf name (Comment t) = None"

text \<open>What the two link loops do with one anchor before they look at the URL:
  \<open>if (!href) return\<close> leaves out a missing or empty \<open>href\<close>, and the \<open>catch\<close> leaves out
  one that does not resolve.\<close>

definition resolvedHref :: "url_api \<Rightarrow> string \<Rightarrow> node \<Rightarrow> string option" where
  "resolvedHref api base element =
     (case attrOf ''href'' element of
        None \<Rightarrow> None
      | Some h \<Rightarrow> if h = [] then None else resolve api h base)"

text \<open>fetcher.ts, \<open>extractLinks\<close>: the body of \<open>each\<close> (lines 140-154) over the anchors,
  with the array \<open>links\<close>.\<close>

fun extractLinks_each :: "url_api \<Rightarrow> string \<Rightarrow> node list \<Rightarrow> string list \<Rightarrow> string list" where
  "extractLinks_each api base [] links = links"
| "extractLinks_each api base (element # elements) links =
     (case resolvedHref api base element of
        None \<Rightarrow> extractLinks_each api base elements links
      | Some url \<Rightarrow>
          if hostname api url = hostname api base
          then extractLinks_each api base elements (links @ [url])
          else extractLinks_each api base elements links)"

definition extractLinks :: "url_api \<Rightarrow> document \<Rightarrow> string \<Rightarrow> js_error + string list" where
  "extractLinks api doc baseUrl =
     (case parse api baseUrl of
        None \<Rightarrow> Inl (InvalidURL baseUrl)
      | Some base \<Rightarrow>
          Inr (newSet (extractLinks_each api base
                 (selectAll [[[Tag ''a'', AttrExists ''href'']]] [] doc) [])))"

section \<open>discover.ts: extractArticleLinks\<close>

definition articleSelectors :: "selector list" where
  "articleSelectors =
     [[[Tag ''article''], [Tag ''a'']],
      [[Class ''post''], [Tag ''a'']],
      [[Class ''blog-post''], [Tag ''a'']],
      [[Class ''article-card''], [Tag ''a'']],
      [[Class ''entry''], [Tag ''a'']],
      [[Class ''news-item''], [Tag ''a'']],
      [[AttrContains ''class'' ''article''], [Tag ''a'']],
      [[AttrContains ''class'' ''post''], [Tag ''a'']],
      [[Tag ''h2''], [Tag ''a'']],
      [[Tag ''h3''], [Tag ''a'']]]"

text \<open>\<open>path.match(/\/(tag|category|author|page|search|login|signup)/i)\<close>: one of the
  words, after a slash, occurs somewhere in the path, in any case of its letters.\<close>

definition nonArticleWords :: "string list" where
  "nonArticleWords =
     [''tag'', ''category'', ''author'', ''page'', ''search'', ''login'', ''signup'']"

definition nonArticlePath :: "string \<Rightarrow> bool" where
  "nonArticlePath path =
     list_ex (\<lambda>w. includesStr (toLowerCase path) (''/'' @ w)) nonArticleWords"

text \<open>The body of \<open>each\<close> (lines 104-123) over the elements of one selector.\<close>

fun extractArticleLinks_each ::
  "url_api \<Rightarrow> string \<Rightarrow> node list \<Rightarrow> string list \<Rightarrow> string list" where
  "extractArticleLinks_each api base [] articleUrls = articleUrls"
| "extractArticleLinks_each api base (element # elements) articleUrls =
     (case resolvedHref api base element of
        None \<Rightarrow> extractArticleLinks_each api base elements articleUrls
      | Some url \<Rightarrow>
          if hostname api url = hostname api base \<and> url \<notin> set articleUrls
          then (if \<not> nonArticlePath (pathname api url) \<and> pathname api url \<noteq> pathname api base
                then extractArticleLinks_each api base elements (articleUrls @ [url])
                else extractArticleLinks_each api base elements articleUrls)
          else extractArticleLinks_each api base elements articleUrls)"

text \<open>The loop over the selectors (line 103).\<close>

fun extractArticleLinks_loop ::
  "url_api \<Rightarrow> string \<Rightarrow> document \<Rightarrow> selector list \<Rightarrow> string list \<Rightarrow> string list" where
  "extractArticleLinks_loop api base doc [] articleUrls = articleUrls"
| "extractArticleLinks_loop api base doc (sel # sels) articleUrls =
     extractArticleLinks_loop api base doc sels
       (extractArticleLinks_each api base (selectAll [sel] [] doc) articleUrls)"

definition extractArticleLinks :: "url_api \<Rightarrow> document \<Rightarrow> string \<Rightarrow> js_error + string list" where
  "extractArticleLinks api doc baseUrl =
     (case parse api baseUrl of
        None \<Rightarrow> Inl (InvalidURL baseUrl)
      | Some base \<Rightarrow>
          Inr (newSet (extractArticleLinks_loop api base doc articleSelectors [])))"

text \<open>The candidates of the two functions, for stating what they return: the resolved
  URLs of the anchors, in the order in which the loops meet them.\<close>

definition resolvedHrefs :: "url_api \<Rightarrow> string \<Rightarrow> node list \<Rightarrow> string list" where
  "resolvedHrefs api base elements = List.map_filter (resolvedHref api base) elements"

definition articleCandidates :: "url_api \<Rightarrow> string \<Rightarrow> document \<Rightarrow> string list" where
  "articleCandidates api base doc =
     concat (map (\<lambda>sel. resolvedHrefs api base (selectAll [sel] [] doc)) articleSelectors)"

definition acceptedArticle :: "url_api \<Rightarrow> string \<Rightarrow> string \<Rightarrow> bool" where
  "acceptedArticle api base url =
     (hostname api url = hostname api base \<and> \<not> nonArticlePath (pathname api url)
      \<and> pathname api url \<noteq> pathname api base)"

text \<open>
  A small URL implementation for the examples. It knows absolute URLs
  \<open>https://host/path\<close> and hrefs that start with a slash, and rejects everything else.
\<close>

definition exampleHost :: "string \<Rightarrow> string" where
  "exampleHost url = takeWhile (\<lambda>c. c \<noteq> CHR ''/'') (drop 8 url)"

definition examplePath :: "string \<Rightarrow> string" where
  "examplePath url = dropWhile (\<lambda>c. c \<noteq> CHR ''/'') (drop 8 url)"

definition exampleParse :: "string \<Rightarrow> string option" where
  "exampleParse s =
     (if take 8 s = ''https://'' \<and> exampleHost s \<noteq> []
      then Some (if examplePath s = [] then s @ ''/'' else s) else None)"

definition exampleApi :: url_api where
  "exampleApi =
     \<lparr>parse = exampleParse,
      resolve = (\<lambda>h base. if take 1 h = ''/'' then Some (''https://'' @ exampleHost base @ h)
                           else exampleParse h),
      hostname = exampleHost,
      pathname = examplePath\<rparr>"

definition anchor :: "string \<Rightarrow> node" where
  "anchor h = Element ''a'' [(''href'', h)] [Text ''link'']"

definition exampleLinksPage :: document where
  "exampleLinksPage = pageOf
     [anchor ''/about'', anchor ''https://example.com/about'', anchor ''not a url'',
      anchor ''https://other.org/x'', anchor [], Element ''a'' [] [Text ''no href''],
      anchor ''/blog'']"

definition exampleListingPage :: document where
  "exampleListingPage = pageOf
     [Element ''div'' [(''class'', ''blog-post'')]
        [anchor ''/blog/one'', anchor ''/blog/two'', anchor ''/blog/three'',
         anchor ''/blog/four'', anchor ''/blog/five'', anchor ''/blog/one''],
      Element ''h2'' [] [anchor ''/blog/tag/ai'', anchor ''/blog'', anchor ''/blog/two'',
                         anchor ''https://other.org/blog/six'']]"

section \<open>fetcher.ts: extractMetadata\<close>

record ExtractedMetadata =
  title :: string
  description :: string
  keywords_m :: "string list"

text \<open>\<open>a || b\<close> on strings, where \<open>undefined\<close> (a missing attribute) counts as the empty
  string: the chains of the sources all end in a string.\<close>

definition orElse :: "string \<Rightarrow> string \<Rightarrow> string" where
  "orElse a b = (if a \<noteq> [] then a else b)"

definition attrOr :: "string option \<Rightarrow> string" where
  "attrOr v = (case v of None \<Rightarrow> [] | Some s \<Rightarrow> s)"

text \<open>\<open>$(sel).first().text()\<close>.\<close>

fun textOfFirst :: "node list \<Rightarrow> string" where
  "textOfFirst [] = []"
| "textOfFirst (element # others) = textOf element"

text \<open>\<open>s.split(sep)\<close> for a one-character separator.\<close>

fun splitOn :: "char \<Rightarrow> string \<Rightarrow> string list" where
  "splitOn sep [] = [[]]"
| "splitOn sep (c # cs) =
     (if c = sep then [] # splitOn sep cs
      else (case splitOn sep cs of [] \<Rightarrow> [[c]] | piece # pieces \<Rightarrow> (c # piece) # pieces))"

definition extractMetadata :: "document \<Rightarrow> ExtractedMetadata" where
  "extractMetadata doc =
     \<lparr>title =
        orElse (trim (textOfAll (selectAll [[[Tag ''title'']]] [] doc)))
          (orElse (attrOr (attrOfFirst ''content''
                     (selectAll [[[Tag ''meta'', AttrEquals ''property'' ''og:title'']]] [] doc)))
             (orElse (trim (textOfFirst (selectAll [[[Tag ''h1'']]] [] doc))) [])),
      description =
        orElse (attrOr (attrOfFirst ''content''
                  (selectAll [[[Tag ''meta'', AttrEquals ''name'' ''description'']]] [] doc)))
          (orElse (attrOr (attrOfFirst ''content''
                     (selectAll [[[Tag ''meta'', AttrEquals ''property'' ''og:description'']]] [] doc)))
             []),
      keywords_m =
        filter (\<lambda>k. k \<noteq> [])
          (map trim (splitOn CHR '',''
             (orElse (attrOr (attrOfFirst ''content''
                        (selectAll [[[Tag ''meta'', AttrEquals ''name'' ''keywords'']]] [] doc)))
                [])))\<rparr>"

section \<open>discover.ts: fetchArticle and the loop over the article URLs\<close>

record ExistingArticle =
  url_a :: string
  title_a :: string
  publishedAt :: "string option"
  excerpt_a :: string
  topics_a :: "string list"
  wordCount :: nat
  content_a :: string

definition dateSelectors :: "selector list" where
  "dateSelectors =
     [[[Tag ''time'', AttrExists ''datetime'']],
      [[AttrContains ''class'' ''date'']],
      [[AttrContains ''class'' ''published'']],
      [[Tag ''meta'', AttrEquals ''property'' ''article:published_time'']]]"

text \<open>The loop of lines 151-160; the variable \<open>publishedAt\<close> is \<open>undefined\<close> (\<open>None\<close>) before it.\<close>

fun publishedLoop :: "selector list \<Rightarrow> document \<Rightarrow> string option \<Rightarrow> string option" where
  "publishedLoop [] doc found = found"
| "publishedLoop (sel # sels) doc found =
     (case selectAll [sel] [] doc of
        [] \<Rightarrow> publishedLoop sels doc found
      | element # others \<Rightarrow>
          (let p = orElse (attrOr (attrOf ''datetime'' element))
                     (orElse (attrOr (attrOf ''content'' element)) (trim (textOf element)))
           in if p \<noteq> [] then Some p else publishedLoop sels doc (Some p)))"

definition topicPatterns :: "string list" where
  "topicPatterns =
     [''ai'', ''artificial intelligence'', ''machine learning'', ''startup'', ''saas'',
      ''product'', ''development'', ''engineering'', ''design'', ''marketing'', ''growth'',
      ''security'', ''compliance'', ''data'', ''analytics'', ''cloud'', ''mobile'', ''web'']"

fun topicsLoop :: "string \<Rightarrow> string list \<Rightarrow> string list \<Rightarrow> string list" where
  "topicsLoop contentLower [] found = found"
| "topicsLoop contentLower (pattern # patterns) found =
     topicsLoop contentLower patterns
       (if includesStr contentLower pattern \<and> pattern \<notin> set found
        then found @ [pattern] else found)"

definition extractTopicsFromContent :: "string \<Rightarrow> string list \<Rightarrow> string list" where
  "extractTopicsFromContent text metaKeywords =
     take 5 (topicsLoop (toLowerCase text) topicPatterns metaKeywords)"

text \<open>
  \<open>fetchArticle\<close>. \<open>web url k\<close> is what the \<open>k\<close>-th request for \<open>url\<close> does, and \<open>load\<close>
  is the parser. The result is the error thrown by \<open>fetchPage\<close> (\<open>Inl\<close>), \<open>null\<close>
  (\<open>Inr None\<close>) or the article.
\<close>

definition fetchArticle ::
  "(string \<Rightarrow> nat \<Rightarrow> outcome) \<Rightarrow> (string \<Rightarrow> document) \<Rightarrow> string
   \<Rightarrow> string + ExistingArticle option" where
  "fetchArticle web load articleUrl =
     (case result (fetchPage (web articleUrl) articleUrl) of
        Inl err \<Rightarrow> Inl err
      | Inr html \<Rightarrow>
          (let metadata = extractMetadata (load html);
               text = extractMainContent (load html)
           in if title metadata = [] \<or> length text < 100 then Inr None
              else Inr (Some
                \<lparr>url_a = articleUrl,
                 title_a = title metadata,
                 publishedAt = publishedLoop dateSelectors (load html) None,
                 excerpt_a = orElse (description metadata)
                             (trim (replaceRuns isWhiteSpace '' '' (take 200 text)) @ ''...''),
                 topics_a = extractTopicsFromContent text (keywords_m metadata),
                 wordCount = length (splitWs text),
                 content_a = take 5000 text\<rparr>)))"

text \<open>The loop of lines 58-69 of \<open>discoverArticles\<close> over \<open>articleUrls.slice(0, 20)\<close>: an
  article that is \<open>null\<close> is not pushed, and the \<open>catch\<close> skips a URL whose fetch throws.
  Its result is the \<open>articles\<close> array that is written to the inventory.\<close>

fun discoverLoop ::
  "(string \<Rightarrow> nat \<Rightarrow> outcome) \<Rightarrow> (string \<Rightarrow> document) \<Rightarrow> string list
   \<Rightarrow> ExistingArticle list \<Rightarrow> ExistingArticle list" where
  "discoverLoop web load [] articles = articles"
| "discoverLoop web load (articleUrl # rest) articles =
     (case fetchArticle web load articleUrl of
        Inl err \<Rightarrow> discoverLoop web load rest articles
      | Inr None \<Rightarrow> discoverLoop web load rest articles
      | Inr (Some article) \<Rightarrow> discoverLoop web load rest (articles @ [article]))"

definition discoveredArticles ::
  "(string \<Rightarrow> nat \<Rightarrow> outcome) \<Rightarrow> (string \<Rightarrow> document) \<Rightarrow> string list \<Rightarrow> ExistingArticle list" where
  "discoveredArticles web load articleUrls = discoverLoop web load (take 20 articleUrls) []"

text \<open>Helpers for stating the examples: the article of a result, if there is one, and the
  number of words of its \<open>content\<close> field.\<close>

definition fetched :: "string + ExistingArticle option \<Rightarrow> ExistingArticle option" where
  "fetched r = (case r of Inl err \<Rightarrow> None | Inr a \<Rightarrow> a)"

definition wordsOfContent :: "ExistingArticle \<Rightarrow> nat" where
  "wordsOfContent a = length (splitWs (content_a a))"

text \<open>A site for the examples: a page with a title and an article of more than 100
  characters, a page whose text is too short, a page without a title, a URL that always
  answers 404, and a page whose article is a word of 5000 letters followed by one more
  word.\<close>

definition articlePage :: "string \<Rightarrow> string \<Rightarrow> document" where
  "articlePage t body =
     [Element ''html'' []
        [Element ''head'' [] [Element ''title'' [] [Text t]],
         Element ''body'' [] [Element ''nav'' [] [Text ''Home''],
                              Element ''article'' [] [Text body]]]]"

definition longText :: string where
  "longText = ''Machine learning helps every startup to build a better product, with data and careful engineering of the cloud.''"

definition longWord :: string where
  "longWord = replicate 5000 CHR ''x''"

definition exampleLoad :: "string \<Rightarrow> document" where
  "exampleLoad html =
     (if html = ''good'' then articlePage ''A real article'' longText
      else if html = ''short'' then articlePage ''Tags'' ''too short''
      else if html = ''untitled'' then articlePage [] longText
      else articlePage ''T'' (longWord @ '' y''))"

definition exampleWeb :: "string \<Rightarrow> nat \<Rightarrow> outcome" where
  "exampleWeb u k =
     (if u = ''https://example.com/blog/good'' then Resolved ''good''
      else if u = ''https://example.com/blog/short'' then Resolved ''short''
      else if u = ''https://example.com/blog/untitled'' then Resolved ''untitled''
      else if u = ''https://example.com/blog/long'' then Resolved ''long''
      else Rejected (AxiosStatus 404 ''Request failed with status code 404''))"

section \<open>Properties of the string primitives and of slugify\<close>

lemma set_replaceRuns: "set (replaceRuns p r s) \<subseteq> {c \<in> set s. \<not> p c} \<union> set r"
proof (induction p r s rule: replaceRuns.induct)
  case (1 p r)
  then show ?case by simp
next
  case (2 p r c cs)
  show ?case
  proof (cases "p c")
    case True
    have "set (dropWhile p cs) \<subseteq> set cs" by (rule set_dropWhileD[THEN subsetI]) 
    with 2 True show ?thesis by auto
  next
    case False
    with 2 show ?thesis by auto
  qed
qed


lemma replaceRuns_hd:
  "s \<noteq> [] \<Longrightarrow> \<not> p (hd s) \<Longrightarrow> replaceRuns p r s = hd s # replaceRuns p r (tl s)"
  by (cases s) auto






















section \<open>Properties of fetchPage\<close>

lemma fetchLoop_exhausted:
  "MAX_RETRIES < attempt \<Longrightarrow>
   fetchLoop net url attempt lastError slept =
     \<lparr>result = Inl (''Failed to fetch '' @ url @ '' after '' @ showNat MAX_RETRIES @
                           '' attempts: '' @
                           (case lastError of None \<Rightarrow> ''undefined'' | Some e \<Rightarrow> message e)),
             attempts = attempt - 1, sleeps = slept\<rparr>"
  by (subst fetchLoop.simps) simp

lemma fetchLoop_resolved:
  "attempt \<le> MAX_RETRIES \<Longrightarrow> net attempt = Resolved html \<Longrightarrow>
   fetchLoop net url attempt lastError slept =
     \<lparr>result = Inr html, attempts = attempt, sleeps = slept\<rparr>"
  by (subst fetchLoop.simps) simp

lemma fetchLoop_client:
  "attempt \<le> MAX_RETRIES \<Longrightarrow> net attempt = Rejected err \<Longrightarrow> clientError err \<Longrightarrow>
   fetchLoop net url attempt lastError slept =
     \<lparr>result = Inl (''Failed to fetch '' @ url @ '': '' @ showNat (responseStatus err)),
       attempts = attempt, sleeps = slept\<rparr>"
  by (subst fetchLoop.simps) simp

lemma fetchLoop_retry:
  "attempt \<le> MAX_RETRIES \<Longrightarrow> net attempt = Rejected err \<Longrightarrow> \<not> clientError err \<Longrightarrow>
   fetchLoop net url attempt lastError slept =
     fetchLoop net url (attempt + 1) (Some err)
       (if attempt < MAX_RETRIES then slept @ [RETRY_DELAY * attempt] else slept)"
  by (subst fetchLoop.simps) simp

text \<open>The invariant of the loop: before attempt k the delays slept are those of attempts 1..k-1.\<close>

lemma fetchLoop_inv:
  "1 \<le> attempt \<Longrightarrow> attempt \<le> MAX_RETRIES + 1 \<Longrightarrow>
   slept = map (\<lambda>a. RETRY_DELAY * a) [1..<min attempt MAX_RETRIES] \<Longrightarrow>
   r = fetchLoop net url attempt lastError slept \<Longrightarrow>
   1 \<le> attempts r \<and> attempts r \<le> MAX_RETRIES \<and> attempt - 1 \<le> attempts r \<and>
   sleeps r = map (\<lambda>a. RETRY_DELAY * a) [1..<attempts r]"
proof (induction net url attempt lastError slept arbitrary: r rule: fetchLoop.induct)
  case (1 net url attempt lastError slept)
  show ?case
  proof (cases "attempt \<le> MAX_RETRIES")
    case False
    with 1(3) have a: "attempt = MAX_RETRIES + 1" by simp
    then have "attempts r = MAX_RETRIES" "sleeps r = slept"
      using 1(5) by (simp_all add: fetchLoop_exhausted)
    with a 1(4) show ?thesis by (simp add: MAX_RETRIES_def)
  next
    case le: True
    show ?thesis
    proof (cases "net attempt")
      case (Resolved html)
      with 1(2,3,4,5) le show ?thesis
        using fetchLoop_resolved[of attempt net html url lastError slept] by simp
    next
      case (Rejected err)
      show ?thesis
      proof (cases "clientError err")
        case True
        with 1(2,3,4,5) le Rejected show ?thesis
          using fetchLoop_client[of attempt net err url lastError slept] by simp
      next
        case False
        have s: "(if attempt < MAX_RETRIES then slept @ [RETRY_DELAY * attempt] else slept)
                 = map (\<lambda>a. RETRY_DELAY * a) [1..<min (attempt + 1) MAX_RETRIES]"
          using 1(2,3,4) le by (auto simp: min_def)
        have "r = fetchLoop net url (attempt + 1) (Some err)
                    (if attempt < MAX_RETRIES then slept @ [RETRY_DELAY * attempt] else slept)"
          using 1(5) le Rejected False fetchLoop_retry[of attempt net err url lastError slept] by simp
        from 1(1)[OF le Rejected False _ _ s this] 1(2) le show ?thesis by auto
      qed
    qed
  qed
qed


lemma retriedD: "retried out \<Longrightarrow> \<exists>err. out = Rejected err \<and> \<not> clientError err"
  by (cases out) auto

lemma fetchLoop_skip:
  "a + d \<le> MAX_RETRIES \<Longrightarrow> (\<forall>j. a \<le> j \<and> j < a + d \<longrightarrow> retried (net j)) \<Longrightarrow>
   \<exists>le sl. fetchLoop net url a lastError slept = fetchLoop net url (a + d) le sl"
proof (induction d arbitrary: a lastError slept)
  case 0
  then show ?case by auto
next
  case (Suc d)
  from Suc.prems(2) have "retried (net a)" by simp
  then obtain err where e: "net a = Rejected err" "\<not> clientError err" using retriedD by blast
  have "\<exists>le sl. fetchLoop net url (a + 1) (Some err)
          (if a < MAX_RETRIES then slept @ [RETRY_DELAY * a] else slept)
        = fetchLoop net url (a + 1 + d) le sl"
    using Suc.prems by (intro Suc.IH) auto
  moreover have "fetchLoop net url a lastError slept
        = fetchLoop net url (a + 1) (Some err)
            (if a < MAX_RETRIES then slept @ [RETRY_DELAY * a] else slept)"
    using Suc.prems(1) e fetchLoop_retry[of a net err url lastError slept] by simp
  ultimately show ?case by simp
qed

lemma fetchLoop_reaches:
  assumes "1 \<le> k" "k \<le> MAX_RETRIES" "\<forall>j. 1 \<le> j \<and> j < k \<longrightarrow> retried (net j)"
  shows "\<exists>le sl. fetchPage net url = fetchLoop net url k le sl"
proof -
  have "\<exists>le sl. fetchLoop net url 1 None [] = fetchLoop net url (1 + (k - 1)) le sl"
    using assms by (intro fetchLoop_skip) auto
  with assms(1) show ?thesis by (simp add: fetchPage_def)
qed

lemma showNat_3: "showNat 3 = ''3''"
  by code_simp

lemma fetchPage_exhausted:
  assumes "retried (net 1)" "retried (net 2)" "retried (net 3)"
  shows "fetchPage net url =
     \<lparr>result = Inl (''Failed to fetch '' @ url @ '' after 3 attempts: '' @
                      message (rejectedWith (net 3))),
       attempts = 3, sleeps = [1000, 2000]\<rparr>"
proof -
  obtain e1 where e1: "net 1 = Rejected e1" "\<not> clientError e1"
    using assms(1) retriedD by blast
  obtain e2 where e2: "net 2 = Rejected e2" "\<not> clientError e2"
    using assms(2) retriedD by blast
  obtain e3 where e3: "net 3 = Rejected e3" "\<not> clientError e3"
    using assms(3) retriedD by blast
  have m: "(1::nat) \<le> MAX_RETRIES" "(2::nat) \<le> MAX_RETRIES" "(3::nat) \<le> MAX_RETRIES"
      "(1::nat) < MAX_RETRIES" "(2::nat) < MAX_RETRIES" "\<not> (3::nat) < MAX_RETRIES"
      "MAX_RETRIES < 4"
    by (simp_all add: MAX_RETRIES_def)
  have n: "(1::nat) + 1 = 2" "(2::nat) + 1 = 3" "(3::nat) + 1 = 4" "(4::nat) - 1 = 3"
      "RETRY_DELAY * 1 = 1000" "RETRY_DELAY * 2 = 2000"
    by (simp_all add: RETRY_DELAY_def)
  have "fetchPage net url = fetchLoop net url 1 None []"
    by (simp only: fetchPage_def)
  also have "\<dots> = fetchLoop net url (1 + 1) (Some e1) ([] @ [RETRY_DELAY * 1])"
    by (simp only: fetchLoop_retry[of 1 net e1 url None "[]", OF m(1) e1] m(4) if_True)
  also have "\<dots> = fetchLoop net url 2 (Some e1) [1000]"
    by (simp only: n append.simps)
  also have "\<dots> = fetchLoop net url (2 + 1) (Some e2) ([1000] @ [RETRY_DELAY * 2])"
    by (simp only: fetchLoop_retry[of 2 net e2 url "Some e1" "[1000]", OF m(2) e2] m(5) if_True)
  also have "\<dots> = fetchLoop net url 3 (Some e2) [1000, 2000]"
    by (simp only: n append.simps)
  also have "\<dots> = fetchLoop net url (3 + 1) (Some e3) [1000, 2000]"
    by (simp only: fetchLoop_retry[of 3 net e3 url "Some e2" "[1000, 2000]", OF m(3) e3] m(6) if_False)
  also have "\<dots> = fetchLoop net url 4 (Some e3) [1000, 2000]"
    by (simp only: n)
  also have "\<dots> = \<lparr>result = Inl (''Failed to fetch '' @ url @ '' after '' @ showNat MAX_RETRIES @
                           '' attempts: '' @ message e3),
       attempts = 4 - 1, sleeps = [1000, 2000]\<rparr>"
    by (simp only: fetchLoop_exhausted[OF m(7)] option.case)
  finally show ?thesis
    by (simp only: n e3(1) rejectedWith.simps MAX_RETRIES_def showNat_3) simp
qed

text \<open>
  Claim C3. \<open>fetchPage\<close> calls \<open>axios.get\<close> at least once and at most three times, and
  before attempt \<open>k + 1\<close> it has slept \<open>RETRY_DELAY * a\<close> after each attempt \<open>a \<le> k\<close>.
  A rejection with a response status in [400,500) other than 429 at attempt \<open>k\<close> ends the
  run there with the error naming the URL and the status (at the first attempt: one
  attempt, no sleep). A success at attempt \<open>k\<close> returns the body. Three failures of any
  other kind end the run after exactly three attempts and the sleeps 1000 and 2000, with an
  error that carries the URL and the message of the last failure.
\<close>

theorem fetchPage_retry_classification:
  "1 \<le> attempts (fetchPage net url) \<and> attempts (fetchPage net url) \<le> 3
   \<and> sleeps (fetchPage net url)
       = map (\<lambda>a. RETRY_DELAY * a) [1..<attempts (fetchPage net url)]
   \<and> (\<forall>k err. 1 \<le> k \<and> k \<le> 3 \<and> (\<forall>j. 1 \<le> j \<and> j < k \<longrightarrow> retried (net j))
          \<and> net k = Rejected err \<and> clientError err
        \<longrightarrow> result (fetchPage net url)
              = Inl (''Failed to fetch '' @ url @ '': '' @ showNat (responseStatus err))
            \<and> attempts (fetchPage net url) = k)
   \<and> (\<forall>err. net 1 = Rejected err \<and> clientError err
        \<longrightarrow> fetchPage net url
              = \<lparr>result = Inl (''Failed to fetch '' @ url @ '': '' @ showNat (responseStatus err)),
                 attempts = 1, sleeps = []\<rparr>)
   \<and> (\<forall>k html. 1 \<le> k \<and> k \<le> 3 \<and> (\<forall>j. 1 \<le> j \<and> j < k \<longrightarrow> retried (net j))
          \<and> net k = Resolved html
        \<longrightarrow> result (fetchPage net url) = Inr html \<and> attempts (fetchPage net url) = k)
   \<and> (retried (net 1) \<and> retried (net 2) \<and> retried (net 3)
        \<longrightarrow> fetchPage net url
              = \<lparr>result = Inl (''Failed to fetch '' @ url @ '' after 3 attempts: '' @
                               message (rejectedWith (net 3))),
                 attempts = 3, sleeps = [1000, 2000]\<rparr>)"
proof -
  have inv: "1 \<le> attempts (fetchPage net url) \<and> attempts (fetchPage net url) \<le> 3
   \<and> sleeps (fetchPage net url)
       = map (\<lambda>a. RETRY_DELAY * a) [1..<attempts (fetchPage net url)]"
    using fetchLoop_inv[of 1 "[]" "fetchPage net url" net url None]
    by (simp add: fetchPage_def MAX_RETRIES_def)
  have client: "result (fetchPage net url)
              = Inl (''Failed to fetch '' @ url @ '': '' @ showNat (responseStatus err))
            \<and> attempts (fetchPage net url) = k"
    if h: "1 \<le> k" "k \<le> 3" "\<forall>j. 1 \<le> j \<and> j < k \<longrightarrow> retried (net j)"
       "net k = Rejected err" "clientError err" for k err
  proof -
    obtain le sl where "fetchPage net url = fetchLoop net url k le sl"
      using fetchLoop_reaches[of k net url] h(1,2,3) by (auto simp: MAX_RETRIES_def)
    then show ?thesis
      using h(2,4,5) fetchLoop_client[of k net err url le sl] by (simp add: MAX_RETRIES_def)
  qed
  have first: "fetchPage net url
              = \<lparr>result = Inl (''Failed to fetch '' @ url @ '': '' @ showNat (responseStatus err)),
                 attempts = 1, sleeps = []\<rparr>"
    if "net 1 = Rejected err" "clientError err" for err
    using that fetchLoop_client[of 1 net err url None "[]"]
    by (simp add: fetchPage_def MAX_RETRIES_def)
  have ok: "result (fetchPage net url) = Inr html \<and> attempts (fetchPage net url) = k"
    if h: "1 \<le> k" "k \<le> 3" "\<forall>j. 1 \<le> j \<and> j < k \<longrightarrow> retried (net j)"
       "net k = Resolved html" for k html
  proof -
    obtain le sl where "fetchPage net url = fetchLoop net url k le sl"
      using fetchLoop_reaches[of k net url] h(1,2,3) by (auto simp: MAX_RETRIES_def)
    then show ?thesis
      using h(2,4) fetchLoop_resolved[of k net html url le sl] by (simp add: MAX_RETRIES_def)
  qed
  show ?thesis
    using inv client first ok fetchPage_exhausted[of net url] by blast
qed

theorem fetchPage_retry_witness:
  "fetchPage always503 ''https://example.com/blog''
     = \<lparr>result = Inl ''Failed to fetch https://example.com/blog after 3 attempts: Request failed with status code 503'',
        attempts = 3, sleeps = [1000, 2000]\<rparr>
   \<and> fetchPage always404 ''https://example.com/blog''
     = \<lparr>result = Inl ''Failed to fetch https://example.com/blog: 404'',
        attempts = 1, sleeps = []\<rparr>"
proof -
  have a: "retried (always503 1) \<and> retried (always503 2) \<and> retried (always503 3)"
    by (simp add: always503_def)
  have b: "always404 1 = Rejected (AxiosStatus 404 ''Request failed with status code 404'')
           \<and> clientError (AxiosStatus 404 ''Request failed with status code 404'')"
    by (simp add: always404_def)
  have c: "showNat 404 = ''404''" by code_simp
  have "fetchPage always503 ''https://example.com/blog''
     = \<lparr>result = Inl (''Failed to fetch '' @ ''https://example.com/blog'' @ '' after 3 attempts: '' @
                               message (rejectedWith (always503 3))),
                 attempts = 3, sleeps = [1000, 2000]\<rparr>"
    using fetchPage_retry_classification[of always503 "''https://example.com/blog''"] a by blast
  moreover have "fetchPage always404 ''https://example.com/blog''
     = \<lparr>result = Inl (''Failed to fetch '' @ ''https://example.com/blog'' @ '': '' @
               showNat (responseStatus (AxiosStatus 404 ''Request failed with status code 404''))),
                 attempts = 1, sleeps = []\<rparr>"
    using fetchPage_retry_classification[of always404 "''https://example.com/blog''"] b by blast
  ultimately show ?thesis by (simp add: always503_def c)
qed

section \<open>Properties of generateArticles\<close>

lemma slice0_prefix: "\<exists>n. slice0 xs e = take n xs"
  by (auto simp: slice0_def Let_def)

lemma length_slice0_le: "length (slice0 xs e) \<le> length xs"
  by (simp add: slice0_def Let_def)

lemma length_slice0_nonneg:
  "0 \<le> c \<Longrightarrow> int (length (slice0 xs (Num c))) = min c (int (length xs))"
  by (auto simp: slice0_def Let_def min_def)

lemma length_filter_positions:
  "length (filter (\<lambda>i. P (xs ! i)) [0..<length xs]) = length (filter P xs)"
proof -
  have "filter P (map ((!) xs) [0..<length xs])
          = map ((!) xs) (filter (P \<circ> (!) xs) [0..<length xs])"
    by (rule filter_map)
  then have "filter P xs = map ((!) xs) (filter (P \<circ> (!) xs) [0..<length xs])"
    by (simp only: map_nth)
  then have "length (filter P xs) = length (filter (P \<circ> (!) xs) [0..<length xs])"
    by (simp only: length_map)
  then show ?thesis by (simp only: comp_def)
qed

lemma pending_positions:
  "length (filter (\<lambda>i. status (articles ! i) \<noteq> generated) [0..<length articles])
     = length articles - length (filter (\<lambda>b. status b = generated) articles)"
proof -
  have "length (filter (\<lambda>b. status b \<noteq> generated) articles)
          + length (filter (\<lambda>b. status b = generated) articles) = length articles"
    using sum_length_filter_compl[of "\<lambda>b. status b = generated" articles] by simp
  then show ?thesis
    using length_filter_positions[of "\<lambda>b. status b \<noteq> generated" articles] by simp
qed

lemma articlesToGenerate_distinct: "distinct (articlesToGenerate n articles)"
proof -
  obtain k where "articlesToGenerate n articles
      = take k (filter (\<lambda>i. status (articles ! i) \<noteq> generated) [0..<length articles])"
    unfolding articlesToGenerate_def using slice0_prefix by blast
  then show ?thesis by simp
qed

lemma articlesToGenerate_pending:
  "i \<in> set (articlesToGenerate n articles) \<Longrightarrow>
   i < length articles \<and> status (articles ! i) \<noteq> generated"
proof -
  assume a: "i \<in> set (articlesToGenerate n articles)"
  obtain k where "articlesToGenerate n articles
      = take k (filter (\<lambda>i. status (articles ! i) \<noteq> generated) [0..<length articles])"
    unfolding articlesToGenerate_def using slice0_prefix by blast
  with a have "i \<in> set (filter (\<lambda>i. status (articles ! i) \<noteq> generated) [0..<length articles])"
    by (auto dest: in_set_takeD)
  then show ?thesis by simp
qed

lemma length_articlesToGenerate:
  "length (articlesToGenerate n articles)
     \<le> length articles - length (filter (\<lambda>b. status b = generated) articles)"
  unfolding articlesToGenerate_def
  using length_slice0_le[of "filter (\<lambda>i. status (articles ! i) \<noteq> generated) [0..<length articles]" n]
  by (simp only: pending_positions)

lemma length_articlesToGenerate_nonneg:
  "0 \<le> c \<Longrightarrow>
   int (length (articlesToGenerate (Num c) articles))
     = min c (int (length articles - length (filter (\<lambda>b. status b = generated) articles)))"
  unfolding articlesToGenerate_def
  by (simp only: length_slice0_nonneg pending_positions)

text \<open>The loop: the briefs passed to the generator are those at a prefix of the selected
  positions, as they were before the loop; a loop that ends without an error has gone
  through all positions and has marked exactly them.\<close>

lemma generateLoop_calls:
  "distinct idx \<Longrightarrow> generateLoop gen idx st = (st', err) \<Longrightarrow>
   \<exists>k. calls st' = calls st @ map ((!) (planArticles st)) (take k idx)"
proof (induction idx arbitrary: st)
  case Nil
  then show ?case by simp
next
  case (Cons i rest)
  let ?brief = "planArticles st ! i"
  show ?case
  proof (cases "gen (length (calls st)) ?brief")
    case (Inl e)
    with Cons.prems(2) have "calls st' = calls st @ map ((!) (planArticles st)) (take 1 (i # rest))"
      by (auto simp: Let_def)
    then show ?thesis by blast
  next
    case (Inr article)
    let ?st2 = "st\<lparr>calls := calls st @ [?brief],
                   generatedArticles := generatedArticles st @ [article],
                   filesWritten := filesWritten st @ articleFiles ?brief article,
                   planArticles := (planArticles st)[i := ?brief\<lparr>status := generated\<rparr>]\<rparr>"
    from Cons.prems(2) Inr have "generateLoop gen rest ?st2 = (st', err)"
      by (simp add: Let_def)
    with Cons.IH[of ?st2] Cons.prems(1) obtain k where
      k: "calls st' = calls ?st2 @ map ((!) (planArticles ?st2)) (take k rest)" by auto
    have "map ((!) (planArticles ?st2)) (take k rest) = map ((!) (planArticles st)) (take k rest)"
    proof (rule map_cong[OF refl])
      fix j assume "j \<in> set (take k rest)"
      then have "j \<noteq> i" using Cons.prems(1) by (auto dest: in_set_takeD)
      then show "planArticles ?st2 ! j = planArticles st ! j" by simp
    qed
    with k have "calls st' = calls st @ map ((!) (planArticles st)) (take (Suc k) (i # rest))"
      by simp
    then show ?thesis by blast
  qed
qed

lemma generateLoop_done:
  "distinct idx \<Longrightarrow> \<forall>i \<in> set idx. i < length (planArticles st) \<Longrightarrow>
   generateLoop gen idx st = (st', None) \<Longrightarrow>
   calls st' = calls st @ map ((!) (planArticles st)) idx \<and>
   planArticles st' = markGenerated (set idx) (planArticles st)"
proof (induction idx arbitrary: st)
  case Nil
  then show ?case by (simp add: markGenerated_def map_nth)
next
  case (Cons i rest)
  let ?brief = "planArticles st ! i"
  show ?case
  proof (cases "gen (length (calls st)) ?brief")
    case (Inl e)
    with Cons.prems(3) show ?thesis by (simp add: Let_def)
  next
    case (Inr article)
    let ?st2 = "st\<lparr>calls := calls st @ [?brief],
                   generatedArticles := generatedArticles st @ [article],
                   filesWritten := filesWritten st @ articleFiles ?brief article,
                   planArticles := (planArticles st)[i := ?brief\<lparr>status := generated\<rparr>]\<rparr>"
    from Cons.prems(3) Inr have run: "generateLoop gen rest ?st2 = (st', None)"
      by (simp add: Let_def)
    have "\<forall>j \<in> set rest. j < length (planArticles ?st2)" using Cons.prems(2) by simp
    with Cons.IH[of ?st2] Cons.prems(1) run have
      ih: "calls st' = calls ?st2 @ map ((!) (planArticles ?st2)) rest"
          "planArticles st' = markGenerated (set rest) (planArticles ?st2)" by auto
    have same: "map ((!) (planArticles ?st2)) rest = map ((!) (planArticles st)) rest"
    proof (rule map_cong[OF refl])
      fix j assume "j \<in> set rest"
      then have "j \<noteq> i" using Cons.prems(1) by auto
      then show "planArticles ?st2 ! j = planArticles st ! j" by simp
    qed
    have i: "i < length (planArticles st)" "i \<notin> set rest" using Cons.prems(1,2) by auto
    have "markGenerated (set rest) (planArticles ?st2) = markGenerated (set (i # rest)) (planArticles st)"
      using i by (auto simp: markGenerated_def nth_list_update)
    with ih same show ?thesis by simp
  qed
qed

lemma generateLoop_error_plan:
  "generateArticles gen n d = (d', cs, Inl e) \<Longrightarrow> articlePlan d' = articlePlan d"
  by (auto simp: generateArticles_def split: option.splits prod.splits)

lemma invoked_prefix:
  "articlePlan d = Some articles \<Longrightarrow>
   \<exists>k. invoked (generateArticles gen n d)
          = map ((!) articles) (take k (articlesToGenerate n articles))"
proof (cases "siteAnalysis d")
  case None
  assume "articlePlan d = Some articles"
  have "invoked (generateArticles gen n d) = map ((!) articles) (take 0 (articlesToGenerate n articles))"
    using None by (simp add: generateArticles_def invoked_def)
  then show ?thesis by blast
next
  case (Some a)
  assume p: "articlePlan d = Some articles"
  let ?st0 = "\<lparr>planArticles = articles, filesWritten = written d,
               calls = [], generatedArticles = []\<rparr>"
  obtain st' err where run: "generateLoop gen (articlesToGenerate n articles) ?st0 = (st', err)"
    by (cases "generateLoop gen (articlesToGenerate n articles) ?st0") auto
  then obtain k where "calls st' = calls ?st0 @ map ((!) (planArticles ?st0)) (take k (articlesToGenerate n articles))"
    using generateLoop_calls[OF articlesToGenerate_distinct run] by blast
  moreover have "invoked (generateArticles gen n d) = calls st'"
    using Some p run by (cases err) (simp_all add: generateArticles_def invoked_def)
  ultimately have "invoked (generateArticles gen n d)
          = map ((!) articles) (take k (articlesToGenerate n articles))" by simp
  then show ?thesis by blast
qed

lemma run_returns:
  assumes "siteAnalysis d = Some a" "articlePlan d = Some articles"
      and "outcomeOf (generateArticles gen n d) = Inr gs"
  shows "invoked (generateArticles gen n d) = map ((!) articles) (articlesToGenerate n articles)"
    and "articlePlan (diskAfter (generateArticles gen n d))
           = Some (markGenerated (set (articlesToGenerate n articles)) articles)"
proof -
  let ?st0 = "\<lparr>planArticles = articles, filesWritten = written d,
               calls = [], generatedArticles = []\<rparr>"
  obtain st' err where run: "generateLoop gen (articlesToGenerate n articles) ?st0 = (st', err)"
    by (cases "generateLoop gen (articlesToGenerate n articles) ?st0") auto
  have "err = None"
    using assms run by (cases err) (simp_all add: generateArticles_def outcomeOf_def)
  with run have run': "generateLoop gen (articlesToGenerate n articles) ?st0 = (st', None)" by simp
  have "\<forall>i \<in> set (articlesToGenerate n articles). i < length (planArticles ?st0)"
    using articlesToGenerate_pending by simp
  from generateLoop_done[OF articlesToGenerate_distinct this run']
  have fin: "calls st' = map ((!) articles) (articlesToGenerate n articles)"
      "planArticles st' = markGenerated (set (articlesToGenerate n articles)) articles"
    by simp_all
  show "invoked (generateArticles gen n d) = map ((!) articles) (articlesToGenerate n articles)"
    using assms(1,2) run' fin(1) by (simp add: generateArticles_def invoked_def)
  show "articlePlan (diskAfter (generateArticles gen n d))
           = Some (markGenerated (set (articlesToGenerate n articles)) articles)"
    using assms(1,2) run' fin(2) by (simp add: generateArticles_def diskAfter_def)
qed

lemma run_throws:
  "outcomeOf (generateArticles gen n d) = Inl e \<Longrightarrow>
   articlePlan (diskAfter (generateArticles gen n d)) = articlePlan d"
  by (auto simp: generateArticles_def outcomeOf_def diskAfter_def split: option.splits prod.splits)

lemma next_run_skips:
  "i \<in> set (articlesToGenerate n' (markGenerated S articles)) \<Longrightarrow> i \<notin> S"
proof
  assume a: "i \<in> set (articlesToGenerate n' (markGenerated S articles))" and s: "i \<in> S"
  from articlesToGenerate_pending[OF a]
  have l: "i < length (markGenerated S articles)"
    and st: "status (markGenerated S articles ! i) \<noteq> generated"
    by blast+
  from l have "i < length articles" by (simp add: markGenerated_def)
  then have "markGenerated S articles ! i = (articles ! i)\<lparr>status := generated\<rparr>"
    using s by (simp add: markGenerated_def)
  with st show False by simp
qed

text \<open>
  Claim C1, as the code has it. The plan is written once, after the loop. When a run of
  Generate returns, it has called the generator for exactly the selected briefs, each of
  them is persisted with status \<open>generated\<close> (nothing else in the plan changes), and
  whatever the next run's generator and count are, it calls the generator only for briefs
  of the persisted plan at positions that this run did not process. When a run throws, the
  persisted plan is the one it was before the run.
\<close>

theorem generate_plan_written_after_loop:
  "siteAnalysis d = Some a \<Longrightarrow> articlePlan d = Some articles \<Longrightarrow>
   (\<forall>gs. outcomeOf (generateArticles gen n d) = Inr gs \<longrightarrow>
      invoked (generateArticles gen n d) = map ((!) articles) (articlesToGenerate n articles)
      \<and> articlePlan (diskAfter (generateArticles gen n d))
           = Some (markGenerated (set (articlesToGenerate n articles)) articles)
      \<and> (\<forall>gen' n'. \<exists>k.
            invoked (generateArticles gen' n' (diskAfter (generateArticles gen n d)))
              = map ((!) (markGenerated (set (articlesToGenerate n articles)) articles))
                  (take k (articlesToGenerate n'
                     (markGenerated (set (articlesToGenerate n articles)) articles)))
            \<and> set (articlesToGenerate n'
                     (markGenerated (set (articlesToGenerate n articles)) articles))
                \<inter> set (articlesToGenerate n articles) = {}))
   \<and> (\<forall>e. outcomeOf (generateArticles gen n d) = Inl e \<longrightarrow>
          articlePlan (diskAfter (generateArticles gen n d)) = Some articles)"
proof -
  assume a: "siteAnalysis d = Some a" and p: "articlePlan d = Some articles"
  let ?r = "generateArticles gen n d"
  let ?plan' = "markGenerated (set (articlesToGenerate n articles)) articles"
  have ok: "invoked ?r = map ((!) articles) (articlesToGenerate n articles)
      \<and> articlePlan (diskAfter ?r) = Some ?plan'
      \<and> (\<forall>gen' n'. \<exists>k.
            invoked (generateArticles gen' n' (diskAfter ?r))
              = map ((!) ?plan') (take k (articlesToGenerate n' ?plan'))
            \<and> set (articlesToGenerate n' ?plan') \<inter> set (articlesToGenerate n articles) = {})"
    if r: "outcomeOf ?r = Inr gs" for gs
  proof -
    note rr = run_returns[OF a p r]
    have "\<exists>k. invoked (generateArticles gen' n' (diskAfter ?r))
              = map ((!) ?plan') (take k (articlesToGenerate n' ?plan'))
            \<and> set (articlesToGenerate n' ?plan') \<inter> set (articlesToGenerate n articles) = {}"
      for gen' n'
    proof -
      obtain k where "invoked (generateArticles gen' n' (diskAfter ?r))
              = map ((!) ?plan') (take k (articlesToGenerate n' ?plan'))"
        using invoked_prefix[OF rr(2)] by blast
      moreover have "set (articlesToGenerate n' ?plan') \<inter> set (articlesToGenerate n articles) = {}"
        using next_run_skips by blast
      ultimately show ?thesis by blast
    qed
    with rr show ?thesis by blast
  qed
  have bad: "articlePlan (diskAfter ?r) = Some articles" if "outcomeOf ?r = Inl e" for e
    using run_throws[OF that] p by simp
  show ?thesis using ok bad by blast
qed

lemma run_ok_2:
  "generateArticles genOk (Num 2) exampleDisk =
     (\<lparr>siteAnalysis = Some ''{}'',
       articlePlan = Some [(exampleBrief ''1'')\<lparr>status := generated\<rparr>,
                           (exampleBrief ''2'')\<lparr>status := generated\<rparr>, exampleBrief ''3''],
       written = [(''post-1'', ''article.md''), (''post-1'', ''medium.md''),
                  (''post-1'', ''linkedin.md''), (''post-1'', ''metadata.json''),
                  (''post-2'', ''article.md''), (''post-2'', ''medium.md''),
                  (''post-2'', ''linkedin.md''), (''post-2'', ''metadata.json''),
                  ([], ''blog.ts''), ([], ''README.md'')]\<rparr>,
      [exampleBrief ''1'', exampleBrief ''2''],
      Inr [exampleArticle (exampleBrief ''1''), exampleArticle (exampleBrief ''2'')])"
  by code_simp

lemma exampleDisk_files:
  "siteAnalysis exampleDisk = Some ''{}''" "articlePlan exampleDisk = Some examplePlan"
  by (simp_all add: exampleDisk_def)

lemma selected_2: "articlesToGenerate (Num 2) examplePlan = [0, 1]"
  by code_simp

theorem generate_plan_written_after_loop_witness:
  "siteAnalysis exampleDisk = Some ''{}'' \<and> articlePlan exampleDisk = Some examplePlan
   \<and> outcomeOf (generateArticles genOk (Num 2) exampleDisk)
       = Inr [exampleArticle (exampleBrief ''1''), exampleArticle (exampleBrief ''2'')]
   \<and> invoked (generateArticles genOk (Num 2) exampleDisk)
       = map ((!) examplePlan) (articlesToGenerate (Num 2) examplePlan)
   \<and> articlePlan (diskAfter (generateArticles genOk (Num 2) exampleDisk))
       = Some (markGenerated (set (articlesToGenerate (Num 2) examplePlan)) examplePlan)
   \<and> set (articlesToGenerate (Num 10)
             (markGenerated (set (articlesToGenerate (Num 2) examplePlan)) examplePlan))
       \<inter> set (articlesToGenerate (Num 2) examplePlan) = {}"
proof -
  have o: "outcomeOf (generateArticles genOk (Num 2) exampleDisk)
       = Inr [exampleArticle (exampleBrief ''1''), exampleArticle (exampleBrief ''2'')]"
    by (simp add: run_ok_2 outcomeOf_def)
  show ?thesis
    using generate_plan_written_after_loop[OF exampleDisk_files, of genOk "Num 2"] o
      exampleDisk_files
    by blast
qed

lemma run_crash:
  "generateArticles genCrashAtThird (Num 10) exampleDisk =
     (\<lparr>siteAnalysis = Some ''{}'', articlePlan = Some examplePlan,
       written = [(''post-1'', ''article.md''), (''post-1'', ''medium.md''),
                  (''post-1'', ''linkedin.md''), (''post-1'', ''metadata.json''),
                  (''post-2'', ''article.md''), (''post-2'', ''medium.md''),
                  (''post-2'', ''linkedin.md''), (''post-2'', ''metadata.json'')]\<rparr>,
      [exampleBrief ''1'', exampleBrief ''2'', exampleBrief ''3''],
      Inl ''overloaded'')"
  by code_simp

lemma run_after_crash:
  "invoked (generateArticles genOk (Num 10)
      \<lparr>siteAnalysis = Some ''{}'', articlePlan = Some examplePlan,
       written = [(''post-1'', ''article.md''), (''post-1'', ''medium.md''),
                  (''post-1'', ''linkedin.md''), (''post-1'', ''metadata.json''),
                  (''post-2'', ''article.md''), (''post-2'', ''medium.md''),
                  (''post-2'', ''linkedin.md''), (''post-2'', ''metadata.json'')]\<rparr>)
   = [exampleBrief ''1'', exampleBrief ''2'', exampleBrief ''3'']"
  by code_simp

lemma brief_1_not_3: "exampleBrief ''1'' \<noteq> exampleBrief ''3''"
  by (simp add: exampleBrief_def)

theorem generate_crash_resume_counterexample:
  "outcomeOf (generateArticles genCrashAtThird (Num 10) exampleDisk) = Inl ''overloaded''
   \<and> written (diskAfter (generateArticles genCrashAtThird (Num 10) exampleDisk))
       = [(''post-1'', ''article.md''), (''post-1'', ''medium.md''),
          (''post-1'', ''linkedin.md''), (''post-1'', ''metadata.json''),
          (''post-2'', ''article.md''), (''post-2'', ''medium.md''),
          (''post-2'', ''linkedin.md''), (''post-2'', ''metadata.json'')]
   \<and> invoked (generateArticles genOk (Num 10)
         (diskAfter (generateArticles genCrashAtThird (Num 10) exampleDisk)))
       = [exampleBrief ''1'', exampleBrief ''2'', exampleBrief ''3'']
   \<and> invoked (generateArticles genOk (Num 10)
         (diskAfter (generateArticles genCrashAtThird (Num 10) exampleDisk)))
       \<noteq> [exampleBrief ''3'']"
  by (simp add: run_crash run_after_crash outcomeOf_def diskAfter_def brief_1_not_3)

text \<open>
  Claim C2, as the code has it. For a persisted plan with \<open>N\<close> briefs of which \<open>K\<close> are
  already generated, one run of Generate calls the generator only for briefs of the plan at
  pending positions, so never for a brief whose status is \<open>generated\<close>, and for at most
  \<open>N - K\<close> of them; when the configured count is an integer \<open>c \<ge> 0\<close>, for at most
  \<open>min c (N - K)\<close>, and for none when the count is \<open>NaN\<close>.
\<close>

theorem generate_resume_bound:
  "articlePlan d = Some articles \<Longrightarrow>
   (\<exists>k. invoked (generateArticles gen articleCount d)
          = map ((!) articles) (take k (articlesToGenerate articleCount articles)))
   \<and> list_all (\<lambda>i. i < length articles \<and> \<not> alreadyGenerated (articles ! i))
        (articlesToGenerate articleCount articles)
   \<and> list_all (\<lambda>b. \<not> alreadyGenerated b) (invoked (generateArticles gen articleCount d))
   \<and> length (invoked (generateArticles gen articleCount d))
        \<le> length articles - length (filter alreadyGenerated articles)
   \<and> (\<forall>c. articleCount = Num c \<and> 0 \<le> c \<longrightarrow>
          int (length (invoked (generateArticles gen articleCount d)))
            \<le> min c (int (length articles) - int (length (filter alreadyGenerated articles))))
   \<and> (articleCount = NaN \<longrightarrow> invoked (generateArticles gen articleCount d) = [])"
proof -
  assume p: "articlePlan d = Some articles"
  let ?sel = "articlesToGenerate articleCount articles"
  let ?inv = "invoked (generateArticles gen articleCount d)"
  have ag: "alreadyGenerated = (\<lambda>b. status b = generated)"
    by (auto simp: alreadyGenerated_def)
  obtain k where k: "?inv = map ((!) articles) (take k ?sel)"
    using invoked_prefix[OF p] by blast
  have sel: "list_all (\<lambda>i. i < length articles \<and> \<not> alreadyGenerated (articles ! i)) ?sel"
    unfolding list_all_iff using articlesToGenerate_pending by (auto simp: alreadyGenerated_def)
  have inv: "list_all (\<lambda>b. \<not> alreadyGenerated b) ?inv"
    unfolding k list_all_iff using articlesToGenerate_pending
    by (auto simp: alreadyGenerated_def dest!: in_set_takeD)
  have len: "length ?inv \<le> length ?sel" by (simp add: k)
  have b1: "length ?inv \<le> length articles - length (filter alreadyGenerated articles)"
    using len length_articlesToGenerate[of articleCount articles] by (simp add: ag)
  have b2: "int (length ?inv)
            \<le> min c (int (length articles) - int (length (filter alreadyGenerated articles)))"
    if "articleCount = Num c" "0 \<le> c" for c
  proof -
    have "length (filter alreadyGenerated articles) \<le> length articles" by simp
    then have "int (length articles - length (filter alreadyGenerated articles))
        = int (length articles) - int (length (filter alreadyGenerated articles))" by simp
    then have "int (length ?sel)
        = min c (int (length articles) - int (length (filter alreadyGenerated articles)))"
      using length_articlesToGenerate_nonneg[OF that(2), of articles] that(1) by (simp add: ag)
    with len show ?thesis by linarith
  qed
  have b3: "?inv = []" if "articleCount = NaN"
    using that k by (simp add: articlesToGenerate_def slice0_def)
  show ?thesis using k sel inv b1 b2 b3 by blast
qed

lemma examplePlan_counts:
  "length examplePlan = 3" "length (filter alreadyGenerated examplePlan) = 0"
  by code_simp+

theorem generate_resume_bound_witness:
  "articlePlan exampleDisk = Some examplePlan
   \<and> list_all (\<lambda>b. \<not> alreadyGenerated b) (invoked (generateArticles genOk (Num 2) exampleDisk))
   \<and> length (invoked (generateArticles genOk (Num 2) exampleDisk))
        \<le> length examplePlan - length (filter alreadyGenerated examplePlan)
   \<and> int (length (invoked (generateArticles genOk (Num 2) exampleDisk)))
        \<le> min 2 (int (length examplePlan) - int (length (filter alreadyGenerated examplePlan)))
   \<and> invoked (generateArticles genOk NaN exampleDisk) = []"
proof -
  note t = generate_resume_bound[OF exampleDisk_files(2)]
  have "int (length (invoked (generateArticles genOk (Num 2) exampleDisk)))
        \<le> min 2 (int (length examplePlan) - int (length (filter alreadyGenerated examplePlan)))"
    using t[of genOk "Num 2"] by simp
  moreover have "invoked (generateArticles genOk NaN exampleDisk) = []"
    using t[of genOk NaN] by simp
  ultimately show ?thesis
    using t[of genOk "Num 2"] exampleDisk_files(2) by blast
qed

lemma run_minus_one:
  "invoked (generateArticles genOk (Num (- 1)) exampleDisk) = [exampleBrief ''1'', exampleBrief ''2'']"
  by code_simp

theorem generate_resume_bound_counterexample:
  "length examplePlan = 3 \<and> length (filter alreadyGenerated examplePlan) = 0
   \<and> length (invoked (generateArticles genOk (Num (- 1)) exampleDisk)) = 2
   \<and> \<not> int (length (invoked (generateArticles genOk (Num (- 1)) exampleDisk)))
          \<le> min (- 1) (int (length examplePlan) - int (length (filter alreadyGenerated examplePlan)))"
  by (simp add: run_minus_one examplePlan_counts)

section \<open>Properties of the document model and of extractMainContent\<close>

text \<open>A group of selectors without combinators looks at the element alone: neither its
  ancestors nor its children matter.\<close>

lemma matchesSelector_flat:
  "length sel = 1 \<Longrightarrow>
   matchesSelector sel anc (Element tag attrs cs) = matchesSelector sel anc' (Element tag attrs cs')"
  by (cases sel) (auto simp: matchesSelector_def)

lemma matchesGroup_flat:
  "flat sels \<Longrightarrow>
   matchesGroup sels anc (Element tag attrs cs) = matchesGroup sels anc' (Element tag attrs cs')"
  unfolding matchesGroup_def flat_def list_ex_iff list_all_iff
  using matchesSelector_flat by blast

lemma matchesGroup_not_element:
  "\<not> matchesGroup sels anc (Text t)" "\<not> matchesGroup sels anc (Comment t)"
  by (auto simp: matchesGroup_def matchesSelector_def list_ex_iff split: list.splits)

lemma matchesGroup_flat_anc:
  "flat sels \<Longrightarrow> matchesGroup sels anc n = matchesGroup sels anc' n"
  by (cases n) (auto simp: matchesGroup_not_element dest: matchesGroup_flat)




















text \<open>The second replacement of lines 102-105 never finds a line feed: the first one has
  turned every run of white space, line feeds included, into one space.\<close>

lemma no_LF_after_collapse: "LF \<notin> set (replaceRuns isWhiteSpace '' '' s)"
proof -
  have "set (replaceRuns isWhiteSpace '' '' s) \<subseteq> {c \<in> set s. \<not> isWhiteSpace c} \<union> set '' ''"
    by (rule set_replaceRuns)
  moreover have "isWhiteSpace LF" by (simp add: isWhiteSpace_def LF_def code_def)
  moreover have "LF \<noteq> CHR '' ''" by (simp add: LF_def)
  ultimately show ?thesis by auto
qed

lemma replaceBlankLines_no_LF: "LF \<notin> set s \<Longrightarrow> replaceBlankLines s = s"
  by (induction s) auto

lemma cleanWhitespace_collapse:
  "cleanWhitespace s = trim (replaceRuns isWhiteSpace '' '' s)"
  by (simp add: cleanWhitespace_def replaceBlankLines_no_LF no_LF_after_collapse)

text \<open>
  Claim C8 at the input \<open><article>a\n\n\nb</article>\<close>: the blank lines between \<open>a\<close> and
  \<open>b\<close> are not collapsed to one blank line; they become one space.
\<close>

theorem extractMainContent_blank_lines:
  "extractMainContent blankLinesPage = ''a b''"
  by code_simp

section \<open>Properties of the link extraction\<close>

lemma set_newSet: "set (newSet xs) = set xs"
  by (induction xs rule: newSet.induct) auto

lemma distinct_newSet: "distinct (newSet xs)"
  by (induction xs rule: newSet.induct) (auto simp: set_newSet)

lemma subseq_newSet: "subseq (newSet xs) xs"
proof (induction xs rule: newSet.induct)
  case 1
  then show ?case by simp
next
  case (2 x xs)
  have "subseq (filter (\<lambda>y. y \<noteq> x) xs) xs" by (rule subseq_filter_left)
  with 2 have "subseq (newSet (filter (\<lambda>y. y \<noteq> x) xs)) xs" by (rule subseq_order.trans)
  then show ?case by simp
qed

lemma newSet_distinct: "distinct xs \<Longrightarrow> newSet xs = xs"
proof (induction xs)
  case Nil
  then show ?case by simp
next
  case (Cons x xs)
  then have "filter (\<lambda>y. y \<noteq> x) xs = xs" by (auto intro: filter_True)
  with Cons show ?case by simp
qed

lemma newSet_append:
  "newSet (xs @ ys) = newSet xs @ newSet (filter (\<lambda>y. y \<notin> set xs) ys)"
proof (induction xs arbitrary: ys rule: newSet.induct)
  case 1
  then show ?case by simp
next
  case (2 x xs)
  have "filter (\<lambda>y. y \<notin> set (filter (\<lambda>y. y \<noteq> x) xs)) (filter (\<lambda>y. y \<noteq> x) ys)
          = filter (\<lambda>y. y \<notin> set (x # xs)) ys"
    by (auto intro: filter_cong)
  with 2[of "filter (\<lambda>y. y \<noteq> x) ys"] show ?case by simp
qed

lemma extractLinks_each_eq:
  "extractLinks_each api base elements links
     = links @ filter (\<lambda>u. hostname api u = hostname api base) (resolvedHrefs api base elements)"
  by (induction elements arbitrary: links)
     (auto simp: resolvedHrefs_def map_filter_simps split: option.splits)

lemma resolvedHrefs_mem:
  "u \<in> set (resolvedHrefs api base elements) \<longleftrightarrow>
   (\<exists>element \<in> set elements. resolvedHref api base element = Some u)"
  by (induction elements) (auto simp: resolvedHrefs_def map_filter_simps split: option.splits)

lemma extractArticleLinks_each_eq:
  "distinct articleUrls \<Longrightarrow>
   extractArticleLinks_each api base elements articleUrls
     = articleUrls @ newSet (filter (\<lambda>u. acceptedArticle api base u \<and> u \<notin> set articleUrls)
                               (resolvedHrefs api base elements))"
proof (induction elements arbitrary: articleUrls)
  case Nil
  then show ?case by (simp add: resolvedHrefs_def map_filter_simps)
next
  case (Cons element elements)
  show ?case
  proof (cases "resolvedHref api base element")
    case None
    with Cons show ?thesis by (simp add: resolvedHrefs_def map_filter_simps)
  next
    case (Some url)
    show ?thesis
    proof (cases "acceptedArticle api base url \<and> url \<notin> set articleUrls")
      case True
      then have d: "distinct (articleUrls @ [url])" using Cons.prems by simp
      have f: "filter (\<lambda>u. acceptedArticle api base u \<and> u \<notin> set (articleUrls @ [url])) xs
            = filter (\<lambda>y. y \<noteq> url) (filter (\<lambda>u. acceptedArticle api base u \<and> u \<notin> set articleUrls) xs)"
        for xs by (auto simp: filter_filter intro: filter_cong)
      have r: "resolvedHrefs api base (element # elements) = url # resolvedHrefs api base elements"
        using Some by (simp add: resolvedHrefs_def map_filter_simps)
      from True have "extractArticleLinks_each api base (element # elements) articleUrls
          = extractArticleLinks_each api base elements (articleUrls @ [url])"
        using Some by (simp add: acceptedArticle_def)
      also have "\<dots> = (articleUrls @ [url]) @
          newSet (filter (\<lambda>u. acceptedArticle api base u \<and> u \<notin> set (articleUrls @ [url]))
                    (resolvedHrefs api base elements))"
        by (rule Cons.IH[OF d])
      also have "\<dots> = articleUrls @ url #
          newSet (filter (\<lambda>y. y \<noteq> url)
                    (filter (\<lambda>u. acceptedArticle api base u \<and> u \<notin> set articleUrls)
                       (resolvedHrefs api base elements)))"
        by (simp only: f append_assoc append.simps)
      also have "\<dots> = articleUrls @
          newSet (url # filter (\<lambda>u. acceptedArticle api base u \<and> u \<notin> set articleUrls)
                       (resolvedHrefs api base elements))"
        by (simp only: newSet.simps)
      also have "\<dots> = articleUrls @
          newSet (filter (\<lambda>u. acceptedArticle api base u \<and> u \<notin> set articleUrls)
                       (resolvedHrefs api base (element # elements)))"
        using True by (simp add: r)
      finally show ?thesis .
    next
      case False
      have r: "resolvedHrefs api base (element # elements) = url # resolvedHrefs api base elements"
        using Some by (simp add: resolvedHrefs_def map_filter_simps)
      have "extractArticleLinks_each api base (element # elements) articleUrls
          = extractArticleLinks_each api base elements articleUrls"
        using False Some by (auto simp: acceptedArticle_def)
      also have "\<dots> = articleUrls @
          newSet (filter (\<lambda>u. acceptedArticle api base u \<and> u \<notin> set articleUrls)
                       (resolvedHrefs api base elements))"
        by (rule Cons.IH[OF Cons.prems])
      also have "\<dots> = articleUrls @
          newSet (filter (\<lambda>u. acceptedArticle api base u \<and> u \<notin> set articleUrls)
                       (resolvedHrefs api base (element # elements)))"
        using False by (auto simp: r)
      finally show ?thesis .
    qed
  qed
qed

lemma extractArticleLinks_loop_eq:
  "distinct articleUrls \<Longrightarrow>
   extractArticleLinks_loop api base doc sels articleUrls
     = articleUrls @ newSet (filter (\<lambda>u. acceptedArticle api base u \<and> u \<notin> set articleUrls)
          (concat (map (\<lambda>sel. resolvedHrefs api base (selectAll [sel] [] doc)) sels)))"
proof (induction sels arbitrary: articleUrls)
  case Nil
  then show ?case by simp
next
  case (Cons sel sels)
  let ?ok = "\<lambda>u. acceptedArticle api base u \<and> u \<notin> set articleUrls"
  let ?c1 = "resolvedHrefs api base (selectAll [sel] [] doc)"
  let ?c2 = "concat (map (\<lambda>sel. resolvedHrefs api base (selectAll [sel] [] doc)) sels)"
  let ?acc = "articleUrls @ newSet (filter ?ok ?c1)"
  have e: "extractArticleLinks_each api base (selectAll [sel] [] doc) articleUrls = ?acc"
    by (rule extractArticleLinks_each_eq[OF Cons.prems])
  have d: "distinct ?acc" using Cons.prems by (auto simp: distinct_newSet set_newSet)
  have f: "filter (\<lambda>u. acceptedArticle api base u \<and> u \<notin> set ?acc) ?c2
         = filter (\<lambda>y. y \<notin> set (filter ?ok ?c1)) (filter ?ok ?c2)"
    by (auto simp: filter_filter set_newSet intro: filter_cong)
  have "extractArticleLinks_loop api base doc (sel # sels) articleUrls
          = extractArticleLinks_loop api base doc sels ?acc"
    by (simp only: extractArticleLinks_loop.simps e)
  also have "\<dots> = ?acc @ newSet (filter (\<lambda>u. acceptedArticle api base u \<and> u \<notin> set ?acc) ?c2)"
    by (rule Cons.IH[OF d])
  also have "\<dots> = articleUrls @ newSet (filter ?ok ?c1 @ filter ?ok ?c2)"
    by (simp only: f newSet_append[of "filter ?ok ?c1"] append_assoc)
  finally show ?case by simp
qed

lemma extractArticleLinks_eq:
  "parse api baseUrl = Some base \<Longrightarrow>
   extractArticleLinks api doc baseUrl
     = Inr (newSet (filter (acceptedArticle api base) (articleCandidates api base doc)))"
  by (simp add: extractArticleLinks_def extractArticleLinks_loop_eq articleCandidates_def
        newSet_distinct distinct_newSet)

lemma extractLinks_eq:
  "parse api baseUrl = Some base \<Longrightarrow>
   extractLinks api doc baseUrl
     = Inr (newSet (filter (\<lambda>u. hostname api u = hostname api base)
              (resolvedHrefs api base (selectAll [[[Tag ''a'', AttrExists ''href'']]] [] doc))))"
  by (simp add: extractLinks_def extractLinks_each_eq)

text \<open>
  Claim C7. When the base URL parses, \<open>extractLinks\<close> does not throw, whatever the
  anchors are: an anchor whose \<open>href\<close> is missing, empty or does not resolve is left out.
  The result holds the resolved URLs of the anchors whose host name is the base's, each
  once, in the order of their first occurrences; every such URL is in the result.
\<close>

theorem extractLinks_same_host_no_duplicates:
  "parse api baseUrl = Some base \<Longrightarrow>
   (\<exists>links. extractLinks api doc baseUrl = Inr links
      \<and> links = newSet (filter (\<lambda>u. hostname api u = hostname api base)
                 (resolvedHrefs api base (selectAll [[[Tag ''a'', AttrExists ''href'']]] [] doc)))
      \<and> distinct links
      \<and> (\<forall>l \<in> set links. hostname api l = hostname api base
            \<and> (\<exists>element \<in> set (selectAll [[[Tag ''a'', AttrExists ''href'']]] [] doc).
                  resolvedHref api base element = Some l))
      \<and> (\<forall>element \<in> set (selectAll [[[Tag ''a'', AttrExists ''href'']]] [] doc). \<forall>u.
            resolvedHref api base element = Some u \<and> hostname api u = hostname api base
            \<longrightarrow> u \<in> set links))"
proof -
  assume p: "parse api baseUrl = Some base"
  let ?anchors = "selectAll [[[Tag ''a'', AttrExists ''href'']]] [] doc"
  let ?links = "newSet (filter (\<lambda>u. hostname api u = hostname api base)
                 (resolvedHrefs api base ?anchors))"
  have "extractLinks api doc baseUrl = Inr ?links" by (rule extractLinks_eq[OF p])
  moreover have "distinct ?links" by (rule distinct_newSet)
  moreover have "\<forall>l \<in> set ?links. hostname api l = hostname api base
            \<and> (\<exists>element \<in> set ?anchors. resolvedHref api base element = Some l)"
    by (auto simp: set_newSet resolvedHrefs_mem)
  moreover have "\<forall>element \<in> set ?anchors. \<forall>u.
            resolvedHref api base element = Some u \<and> hostname api u = hostname api base
            \<longrightarrow> u \<in> set ?links"
    by (auto simp: set_newSet resolvedHrefs_mem)
  ultimately show ?thesis by blast
qed

lemma exampleBase: "parse exampleApi ''https://example.com/blog'' = Some ''https://example.com/blog''"
  by code_simp

lemma exampleLinks:
  "newSet (filter (\<lambda>u. hostname exampleApi u = hostname exampleApi ''https://example.com/blog'')
      (resolvedHrefs exampleApi ''https://example.com/blog''
         (selectAll [[[Tag ''a'', AttrExists ''href'']]] [] exampleLinksPage)))
   = [''https://example.com/about'', ''https://example.com/blog'']"
  by code_simp

lemma exampleUnresolved:
  "resolvedHref exampleApi ''https://example.com/blog'' (anchor ''not a url'') = None"
  by code_simp

theorem extractLinks_same_host_no_duplicates_witness:
  "parse exampleApi ''https://example.com/blog'' = Some ''https://example.com/blog''
   \<and> resolvedHref exampleApi ''https://example.com/blog'' (anchor ''not a url'') = None
   \<and> extractLinks exampleApi exampleLinksPage ''https://example.com/blog''
       = Inr [''https://example.com/about'', ''https://example.com/blog'']"
proof -
  obtain links where
    "extractLinks exampleApi exampleLinksPage ''https://example.com/blog'' = Inr links"
    "links = newSet (filter (\<lambda>u. hostname exampleApi u = hostname exampleApi ''https://example.com/blog'')
      (resolvedHrefs exampleApi ''https://example.com/blog''
         (selectAll [[[Tag ''a'', AttrExists ''href'']]] [] exampleLinksPage)))"
    using extractLinks_same_host_no_duplicates[OF exampleBase, of exampleLinksPage] by blast
  then show ?thesis by (simp only: exampleLinks exampleBase exampleUnresolved simp_thms)
qed

text \<open>
  Claim C6. When the base URL parses, \<open>extractArticleLinks\<close> returns the candidates (the
  resolved URLs of the anchors that the selectors find, in the order in which the loops
  meet them) that have the base's host name, whose path holds none of the words of the
  deny list after a slash, and whose path is not the base's path, so none is the listing
  URL itself; each is returned once, in the order of the first occurrences.
\<close>

theorem extractArticleLinks_filtered:
  "parse api baseUrl = Some base \<Longrightarrow>
   (\<exists>links. extractArticleLinks api doc baseUrl = Inr links
      \<and> links = newSet (filter (acceptedArticle api base) (articleCandidates api base doc))
      \<and> distinct links
      \<and> subseq links (articleCandidates api base doc)
      \<and> (\<forall>l \<in> set links. l \<in> set (articleCandidates api base doc)
            \<and> hostname api l = hostname api base
            \<and> \<not> nonArticlePath (pathname api l)
            \<and> pathname api l \<noteq> pathname api base \<and> l \<noteq> base)
      \<and> (\<forall>u \<in> set (articleCandidates api base doc). acceptedArticle api base u \<longrightarrow> u \<in> set links))"
proof -
  assume p: "parse api baseUrl = Some base"
  let ?c = "articleCandidates api base doc"
  let ?links = "newSet (filter (acceptedArticle api base) ?c)"
  have "extractArticleLinks api doc baseUrl = Inr ?links"
    by (rule extractArticleLinks_eq[OF p])
  moreover have "distinct ?links" by (rule distinct_newSet)
  moreover have "subseq ?links ?c"
    using subseq_newSet[of "filter (acceptedArticle api base) ?c"]
      subseq_filter_left[of "acceptedArticle api base" ?c]
    by (rule subseq_order.trans)
  moreover have "\<forall>l \<in> set ?links. l \<in> set ?c
            \<and> hostname api l = hostname api base
            \<and> \<not> nonArticlePath (pathname api l)
            \<and> pathname api l \<noteq> pathname api base \<and> l \<noteq> base"
    by (auto simp: set_newSet acceptedArticle_def)
  moreover have "\<forall>u \<in> set ?c. acceptedArticle api base u \<longrightarrow> u \<in> set ?links"
    by (simp add: set_newSet)
  ultimately show ?thesis by blast
qed

lemma exampleArticleLinks:
  "newSet (filter (acceptedArticle exampleApi ''https://example.com/blog'')
      (articleCandidates exampleApi ''https://example.com/blog'' exampleListingPage))
   = [''https://example.com/blog/one'', ''https://example.com/blog/two'',
      ''https://example.com/blog/three'', ''https://example.com/blog/four'',
      ''https://example.com/blog/five'']"
  by code_simp

theorem extractArticleLinks_filtered_witness:
  "parse exampleApi ''https://example.com/blog'' = Some ''https://example.com/blog''
   \<and> extractArticleLinks exampleApi exampleListingPage ''https://example.com/blog''
       = Inr [''https://example.com/blog/one'', ''https://example.com/blog/two'',
              ''https://example.com/blog/three'', ''https://example.com/blog/four'',
              ''https://example.com/blog/five'']"
proof -
  obtain links where
    "extractArticleLinks exampleApi exampleListingPage ''https://example.com/blog'' = Inr links"
    "links = newSet (filter (acceptedArticle exampleApi ''https://example.com/blog'')
      (articleCandidates exampleApi ''https://example.com/blog'' exampleListingPage))"
    using extractArticleLinks_filtered[OF exampleBase, of exampleListingPage] by blast
  then show ?thesis by (simp only: exampleArticleLinks exampleBase simp_thms)
qed

section \<open>Properties of fetchArticle and of the discovery loop\<close>

lemma fetchArticle_accepted:
  "result (fetchPage (web u) u) = Inr html \<Longrightarrow>
   title (extractMetadata (load html)) \<noteq> [] \<Longrightarrow>
   100 \<le> length (extractMainContent (load html)) \<Longrightarrow>
   \<exists>a. fetchArticle web load u = Inr (Some a) \<and> url_a a = u
       \<and> title_a a = title (extractMetadata (load html))
       \<and> wordCount a = length (splitWs (extractMainContent (load html)))
       \<and> content_a a = take 5000 (extractMainContent (load html))"
  by (simp add: fetchArticle_def Let_def)

lemma fetchArticle_rejected:
  "result (fetchPage (web u) u) = Inr html \<Longrightarrow>
   title (extractMetadata (load html)) = [] \<or> length (extractMainContent (load html)) < 100 \<Longrightarrow>
   fetchArticle web load u = Inr None"
  by (auto simp: fetchArticle_def Let_def)

lemma fetchArticle_SomeD:
  "fetchArticle web load u = Inr (Some a) \<Longrightarrow>
   \<exists>html. result (fetchPage (web u) u) = Inr html
     \<and> title (extractMetadata (load html)) \<noteq> []
     \<and> 100 \<le> length (extractMainContent (load html))
     \<and> url_a a = u
     \<and> title_a a = title (extractMetadata (load html))
     \<and> wordCount a = length (splitWs (extractMainContent (load html)))
     \<and> content_a a = take 5000 (extractMainContent (load html))"
proof (cases "result (fetchPage (web u) u)")
  case (Inl err)
  assume "fetchArticle web load u = Inr (Some a)"
  with Inl show ?thesis by (simp add: fetchArticle_def)
next
  case (Inr html)
  assume f: "fetchArticle web load u = Inr (Some a)"
  have ok: "title (extractMetadata (load html)) \<noteq> []"
      "100 \<le> length (extractMainContent (load html))"
    using f Inr by (auto simp: fetchArticle_def Let_def split: if_splits)
  from fetchArticle_accepted[of web u html load] f Inr ok show ?thesis by auto
qed

lemma discoverLoop_mem:
  "a \<in> set (discoverLoop web load urls articles) \<Longrightarrow>
   a \<in> set articles \<or> (\<exists>u \<in> set urls. fetchArticle web load u = Inr (Some a))"
proof (induction urls arbitrary: articles)
  case Nil
  then show ?case by simp
next
  case (Cons u urls)
  show ?case
  proof (cases "fetchArticle web load u")
    case (Inl err)
    with Cons.prems have "a \<in> set (discoverLoop web load urls articles)" by simp
    from Cons.IH[OF this] show ?thesis by auto
  next
    case (Inr r)
    show ?thesis
    proof (cases r)
      case None
      with Inr Cons.prems have "a \<in> set (discoverLoop web load urls articles)" by simp
      from Cons.IH[OF this] show ?thesis by auto
    next
      case (Some article)
      with Inr Cons.prems have "a \<in> set (discoverLoop web load urls (articles @ [article]))"
        by simp
      from Cons.IH[OF this] Inr Some show ?thesis by auto
    qed
  qed
qed

text \<open>
  Claim C5. \<open>fetchArticle\<close> returns an article only for a page whose metadata title is
  not empty and whose extracted text has at least 100 characters; for a fetched page with
  an empty title or a shorter text it returns \<open>null\<close>, which is not an error. Every
  article of the inventory is such a result for one of the first 20 URLs, so it has a
  non-empty title and comes from a text of at least 100 characters.
\<close>

theorem fetchArticle_validation_gate:
  "(\<forall>a. fetchArticle web load u = Inr (Some a) \<longrightarrow>
      (\<exists>html. result (fetchPage (web u) u) = Inr html
         \<and> title (extractMetadata (load html)) \<noteq> []
         \<and> 100 \<le> length (extractMainContent (load html))
         \<and> url_a a = u \<and> title_a a = title (extractMetadata (load html))))
   \<and> (\<forall>html. result (fetchPage (web u) u) = Inr html
         \<and> (title (extractMetadata (load html)) = []
              \<or> length (extractMainContent (load html)) < 100)
        \<longrightarrow> fetchArticle web load u = Inr None)
   \<and> (\<forall>a \<in> set (discoveredArticles web load urls).
         \<exists>v \<in> set (take 20 urls). \<exists>html.
           fetchArticle web load v = Inr (Some a)
           \<and> result (fetchPage (web v) v) = Inr html
           \<and> title (extractMetadata (load html)) \<noteq> []
           \<and> 100 \<le> length (extractMainContent (load html))
           \<and> title_a a \<noteq> [])"
proof -
  have a: "\<exists>html. result (fetchPage (web u) u) = Inr html
         \<and> title (extractMetadata (load html)) \<noteq> []
         \<and> 100 \<le> length (extractMainContent (load html))
         \<and> url_a a = u \<and> title_a a = title (extractMetadata (load html))"
    if "fetchArticle web load u = Inr (Some a)" for a
    using fetchArticle_SomeD[OF that] by blast
  have b: "fetchArticle web load u = Inr None"
    if "result (fetchPage (web u) u) = Inr html"
       "title (extractMetadata (load html)) = [] \<or> length (extractMainContent (load html)) < 100"
    for html
    using fetchArticle_rejected[of web u html load] that by blast
  have c: "\<exists>v \<in> set (take 20 urls). \<exists>html.
           fetchArticle web load v = Inr (Some a)
           \<and> result (fetchPage (web v) v) = Inr html
           \<and> title (extractMetadata (load html)) \<noteq> []
           \<and> 100 \<le> length (extractMainContent (load html))
           \<and> title_a a \<noteq> []"
    if "a \<in> set (discoveredArticles web load urls)" for a
  proof -
    from that obtain v where v: "v \<in> set (take 20 urls)" "fetchArticle web load v = Inr (Some a)"
      using discoverLoop_mem[of a web load "take 20 urls" "[]"]
      by (auto simp: discoveredArticles_def)
    from fetchArticle_SomeD[OF v(2)] v show ?thesis by auto
  qed
  show ?thesis using a b c by blast
qed

lemma example_short_fetch:
  "result (fetchPage (exampleWeb ''https://example.com/blog/short'') ''https://example.com/blog/short'')
     = Inr ''short''"
  by code_simp

lemma example_short_length: "length (extractMainContent (exampleLoad ''short'')) < 100"
  by code_simp

lemma example_untitled_fetch:
  "result (fetchPage (exampleWeb ''https://example.com/blog/untitled'')
             ''https://example.com/blog/untitled'') = Inr ''untitled''"
  by code_simp

lemma example_untitled_title: "title (extractMetadata (exampleLoad ''untitled'')) = []"
  by code_simp

lemma example_inventory:
  "map title_a (discoveredArticles exampleWeb exampleLoad
      [''https://example.com/blog/short'', ''https://example.com/blog/good'',
       ''https://example.com/blog/gone'', ''https://example.com/blog/untitled''])
   = [''A real article'']"
  by code_simp

theorem fetchArticle_validation_gate_witness:
  "result (fetchPage (exampleWeb ''https://example.com/blog/short'') ''https://example.com/blog/short'')
     = Inr ''short''
   \<and> length (extractMainContent (exampleLoad ''short'')) < 100
   \<and> fetchArticle exampleWeb exampleLoad ''https://example.com/blog/short'' = Inr None
   \<and> result (fetchPage (exampleWeb ''https://example.com/blog/untitled'')
             ''https://example.com/blog/untitled'') = Inr ''untitled''
   \<and> title (extractMetadata (exampleLoad ''untitled'')) = []
   \<and> fetchArticle exampleWeb exampleLoad ''https://example.com/blog/untitled'' = Inr None
   \<and> map title_a (discoveredArticles exampleWeb exampleLoad
        [''https://example.com/blog/short'', ''https://example.com/blog/good'',
         ''https://example.com/blog/gone'', ''https://example.com/blog/untitled''])
       = [''A real article'']"
proof -
  have "fetchArticle exampleWeb exampleLoad ''https://example.com/blog/short'' = Inr None"
    using fetchArticle_validation_gate[of exampleWeb exampleLoad "''https://example.com/blog/short''"]
      example_short_fetch example_short_length by blast
  moreover have "fetchArticle exampleWeb exampleLoad ''https://example.com/blog/untitled'' = Inr None"
    using fetchArticle_validation_gate[of exampleWeb exampleLoad "''https://example.com/blog/untitled''"]
      example_untitled_fetch example_untitled_title by blast
  ultimately show ?thesis
    using example_short_fetch example_short_length example_untitled_fetch
      example_untitled_title example_inventory by blast
qed

text \<open>
  Claim C9, as the code has it. For an article that passes validation, the \<open>content\<close>
  field is the first 5000 characters of the extracted text, and \<open>wordCount\<close> is the number
  of pieces of the whole extracted text split at white space, not of the truncated one.
\<close>

theorem fetchArticle_content_truncated_wordCount_full:
  "fetchArticle web load u = Inr (Some a) \<Longrightarrow>
   (\<exists>html. result (fetchPage (web u) u) = Inr html
      \<and> content_a a = take 5000 (extractMainContent (load html))
      \<and> length (content_a a) \<le> 5000
      \<and> wordCount a = length (splitWs (extractMainContent (load html))))"
proof -
  assume "fetchArticle web load u = Inr (Some a)"
  from fetchArticle_SomeD[OF this] obtain html where
    h: "result (fetchPage (web u) u) = Inr html"
       "content_a a = take 5000 (extractMainContent (load html))"
       "wordCount a = length (splitWs (extractMainContent (load html)))"
    by blast
  from h(2) have "length (content_a a) \<le> 5000" by simp
  with h show ?thesis by blast
qed

lemma example_good_fetch:
  "result (fetchPage (exampleWeb ''https://example.com/blog/good'') ''https://example.com/blog/good'')
     = Inr ''good''"
  by code_simp

lemma example_good_title: "title (extractMetadata (exampleLoad ''good'')) \<noteq> []"
  by code_simp

lemma example_good_text: "extractMainContent (exampleLoad ''good'') = longText"
  by code_simp

lemma example_good_length: "length longText = 111"
  by code_simp

lemma example_good_words: "length (splitWs longText) = 18"
  by code_simp

theorem fetchArticle_content_truncated_wordCount_full_witness:
  "map_option content_a (fetched (fetchArticle exampleWeb exampleLoad ''https://example.com/blog/good''))
     = Some longText
   \<and> map_option wordCount (fetched (fetchArticle exampleWeb exampleLoad ''https://example.com/blog/good''))
     = Some 18"
proof -
  have "100 \<le> length (extractMainContent (exampleLoad ''good''))"
    by (simp add: example_good_text example_good_length)
  with fetchArticle_accepted[of exampleWeb "''https://example.com/blog/good''" "''good''" exampleLoad]
    example_good_fetch example_good_title
  obtain a where a: "fetchArticle exampleWeb exampleLoad ''https://example.com/blog/good'' = Inr (Some a)"
    by blast
  from fetchArticle_content_truncated_wordCount_full[OF a] obtain html where
    h: "result (fetchPage (exampleWeb ''https://example.com/blog/good'') ''https://example.com/blog/good'')
          = Inr html"
       "content_a a = take 5000 (extractMainContent (exampleLoad html))"
       "wordCount a = length (splitWs (extractMainContent (exampleLoad html)))"
    by blast
  from h(1) have "html = ''good''" by (simp only: example_good_fetch sum.inject)
  with h(2,3) have "content_a a = longText" "wordCount a = 18"
    by (simp_all add: example_good_text example_good_length example_good_words)
  with a show ?thesis by (simp add: fetched_def)
qed

lemma replaceRuns_prefix:
  "\<forall>c \<in> set xs. \<not> p c \<Longrightarrow> replaceRuns p r (xs @ ys) = xs @ replaceRuns p r ys"
  by (induction xs) auto

lemma trim_unchanged:
  "s \<noteq> [] \<Longrightarrow> \<not> isWhiteSpace (hd s) \<Longrightarrow> \<not> isWhiteSpace (last s) \<Longrightarrow> trim s = s"
proof -
  assume s: "s \<noteq> []" "\<not> isWhiteSpace (hd s)" "\<not> isWhiteSpace (last s)"
  have d: "dropWhile isWhiteSpace t = t" if "t \<noteq> []" "\<not> isWhiteSpace (hd t)" for t
    using that by (cases t) auto
  have "dropWhile isWhiteSpace s = s" using s by (intro d)
  moreover have "dropWhile isWhiteSpace (rev s) = rev s"
    using s by (intro d) (simp_all add: hd_rev)
  ultimately show ?thesis by (simp add: trim_def)
qed

lemma longWord_facts:
  "set longWord = {CHR ''x''}" "length longWord = 5000" "longWord \<noteq> []" "hd longWord = CHR ''x''"
  by (auto simp: longWord_def hd_replicate)

lemma char_classes:
  "\<not> isWhiteSpace CHR ''x''" "\<not> isWhiteSpace CHR ''y''" "isWhiteSpace CHR '' ''"
  by (simp_all add: isWhiteSpace_def code_def)

lemma long_clean: "cleanWhitespace (longWord @ '' y'') = longWord @ '' y''"
proof -
  have "replaceRuns isWhiteSpace '' '' (longWord @ '' y'')
          = longWord @ replaceRuns isWhiteSpace '' '' '' y''"
    by (rule replaceRuns_prefix) (simp add: longWord_facts char_classes)
  also have "replaceRuns isWhiteSpace '' '' '' y'' = '' y''"
    by (simp add: char_classes)
  finally have "cleanWhitespace (longWord @ '' y'') = trim (longWord @ '' y'')"
    by (simp only: cleanWhitespace_collapse)
  moreover have "trim (longWord @ '' y'') = longWord @ '' y''"
    by (rule trim_unchanged) (simp_all add: longWord_facts char_classes)
  ultimately show ?thesis by simp
qed

lemma long_words: "splitWs (longWord @ '' y'') = [longWord, ''y'']"
proof -
  have n: "\<And>c. c \<in> set longWord \<Longrightarrow> \<not> isWhiteSpace c"
    by (simp add: longWord_facts char_classes)
  have d: "dropWhile (\<lambda>c. \<not> isWhiteSpace c) (longWord @ '' y'') = '' y''"
    using n by (simp add: dropWhile_append2 char_classes)
  have t: "takeWhile (\<lambda>c. \<not> isWhiteSpace c) (longWord @ '' y'') = longWord"
    using n by (simp add: takeWhile_append2 char_classes)
  have y: "splitWs ''y'' = [''y'']"
    by (subst splitWs.simps) (simp add: char_classes)
  show ?thesis
    by (subst splitWs.simps) (simp add: d t y char_classes)
qed

lemma long_truncated_words: "splitWs (take 5000 (longWord @ '' y'')) = [longWord]"
proof -
  have e: "dropWhile (\<lambda>c. \<not> isWhiteSpace c) longWord = []"
    by (simp add: longWord_facts char_classes)
  have "splitWs longWord = [longWord]"
    by (subst splitWs.simps) (simp only: e list.case)
  then show ?thesis by (simp add: longWord_facts)
qed

lemma extractMainContent_articlePage:
  "body \<noteq> [] \<Longrightarrow> extractMainContent (articlePage t body) = cleanWhitespace body"
  by (simp add: extractMainContent_def articlePage_def boilerplate_def mainSelectors_def
        matchesGroup_def matchesSelector_def attr_def Let_def)

lemma title_articlePage:
  "title (extractMetadata (articlePage ''T'' body)) = ''T''"
  by (simp add: extractMetadata_def articlePage_def matchesGroup_def matchesSelector_def
        orElse_def trim_def isWhiteSpace_def code_def)

lemma example_long_fetch:
  "result (fetchPage (exampleWeb ''https://example.com/blog/long'') ''https://example.com/blog/long'')
     = Inr ''long''"
  by code_simp

lemma example_long_page: "exampleLoad ''long'' = articlePage ''T'' (longWord @ '' y'')"
  by (simp add: exampleLoad_def)

theorem fetchArticle_wordCount_counterexample:
  "map_option wordCount
     (fetched (fetchArticle exampleWeb exampleLoad ''https://example.com/blog/long'')) = Some 2
   \<and> map_option wordsOfContent
     (fetched (fetchArticle exampleWeb exampleLoad ''https://example.com/blog/long'')) = Some 1"
proof -
  have tx: "extractMainContent (exampleLoad ''long'') = longWord @ '' y''"
    by (simp add: example_long_page extractMainContent_articlePage long_clean)
  have "title (extractMetadata (exampleLoad ''long'')) \<noteq> []"
    by (simp add: example_long_page title_articlePage)
  moreover have "100 \<le> length (extractMainContent (exampleLoad ''long''))"
    by (simp add: tx longWord_facts)
  ultimately obtain a where
    a: "fetchArticle exampleWeb exampleLoad ''https://example.com/blog/long'' = Inr (Some a)"
       "wordCount a = length (splitWs (extractMainContent (exampleLoad ''long'')))"
       "content_a a = take 5000 (extractMainContent (exampleLoad ''long''))"
    using fetchArticle_accepted[of exampleWeb "''https://example.com/blog/long''" "''long''" exampleLoad]
      example_long_fetch by blast
  have "wordCount a = 2" by (simp add: a(2) tx long_words)
  moreover have "wordsOfContent a = 1"
    by (simp only: wordsOfContent_def a(3) tx long_truncated_words) simp
  ultimately show ?thesis by (simp add: a(1) fetched_def)
qed

end
